theory Spec2Isabelle
  imports Complex_Main "HOL-Library.Sublist" "HOL-Library.AList" "HOL-Library.Multiset"
begin

section \<open>Training script of the capsule network: configuration\<close>

text \<open>
  The module-level constants of \<^verbatim>\<open>v1_train_capsnet.py\<close> (lines 47 to 70).
  Python floats are taken as real numbers throughout: the rounding of the binary
  floating-point formats is not part of this development.
\<close>

definition ARCHITECTURE :: string where
  "ARCHITECTURE = ''capsnet''"

definition DECODER_NAME :: string where
  "DECODER_NAME = ''decoder''"

definition INPUT_DSHAPE :: "nat \<times> nat \<times> nat" where
  "INPUT_DSHAPE = (104, 104, 3)"

definition NUM_TCLASSES :: nat where
  "NUM_TCLASSES = 10"

definition DATASET_ID :: string where
  "DATASET_ID = ''synthetic_digits''"

definition IMAGE_SIZE :: "nat \<times> nat \<times> nat" where
  "IMAGE_SIZE = (104, 104, 3)"

definition BATCH_SIZE :: nat where
  "BATCH_SIZE = 50"

definition NUM_EPOCHS :: nat where
  "NUM_EPOCHS = 100"

definition LEARN_RATE :: real where
  "LEARN_RATE = 1 / 1000"

definition DECAY_RATE :: real where
  "DECAY_RATE = 9 / 10"

definition RECON_COEF :: real where
  "RECON_COEF = 5 / 10000"

definition N_ROUTINGS :: nat where
  "N_ROUTINGS = 3"

definition AUTH_TOKEN :: "string option" where
  "AUTH_TOKEN = None"

definition TELCHAT_ID :: "string option" where
  "TELCHAT_ID = None"

definition F_SHUTDOWN :: bool where
  "F_SHUTDOWN = False"

subsection \<open>Paths\<close>

text \<open>
  Lines 55 to 96. \<open>path_join\<close> is \<^verbatim>\<open>os.path.join\<close> of two POSIX paths; \<^verbatim>\<open>'...{}...'.format(x)\<close>
  is written as concatenation. The last two paths are the ones \<^verbatim>\<open>plot\<close> builds in place
  (lines 242 and 255).
\<close>

definition path_join :: "string \<Rightarrow> string \<Rightarrow> string" where
  "path_join a b =
     (if b \<noteq> [] \<and> hd b = CHR ''/'' then b
      else if a = [] \<or> last a = CHR ''/'' then a @ b
      else a @ ''/'' @ b)"

definition DATA_TRAIN :: string where
  "DATA_TRAIN = ''data/'' @ DATASET_ID @ ''/data_train_104x104/data.mat''"

definition DATA_VALID :: string where
  "DATA_VALID = ''data/'' @ DATASET_ID @ ''/data_valid_104x104/data.mat''"

definition OUTPUT_DIR :: string where
  "OUTPUT_DIR = ''output/'' @ DATASET_ID @ ''/'' @ ARCHITECTURE @ ''/''"

definition mdl_dir :: string where
  "mdl_dir = path_join OUTPUT_DIR ''models''"

definition mdl_train_file :: string where
  "mdl_train_file = path_join mdl_dir (ARCHITECTURE @ ''_train.json'')"

definition mdl_evaln_file :: string where
  "mdl_evaln_file = path_join mdl_dir (ARCHITECTURE @ ''.json'')"

definition log_dir :: string where
  "log_dir = path_join OUTPUT_DIR ''logs''"

definition cpt_dir :: string where
  "cpt_dir = path_join OUTPUT_DIR ''checkpoints''"

definition tbd_dir :: string where
  "tbd_dir = path_join OUTPUT_DIR ''tensorboard''"

definition log_file :: string where
  "log_file = path_join log_dir ''training.csv''"

definition cpt_best :: string where
  "cpt_best = path_join cpt_dir (ARCHITECTURE @ ''_best.h5'')"

definition cpt_last :: string where
  "cpt_last = path_join cpt_dir (ARCHITECTURE @ ''_last.h5'')"

definition plot_loss_file :: string where
  "plot_loss_file = path_join log_dir ''plot_loss.png''"

definition plot_accuracy_file :: string where
  "plot_accuracy_file = path_join log_dir ''plot_accuracy.png''"

text \<open>
  A path as the list of its components: the pieces between slashes, empty pieces dropped
  (so a trailing slash does not matter). \<open>inside d p\<close>: \<open>p\<close> is \<open>d\<close> or lies below it.
\<close>

fun split_slash :: "string \<Rightarrow> string list" where
  "split_slash [] = [[]]"
| "split_slash (c # cs) =
     (if c = CHR ''/'' then [] # split_slash cs
      else (case split_slash cs of [] \<Rightarrow> [[c]] | w # ws \<Rightarrow> (c # w) # ws))"

definition components :: "string \<Rightarrow> string list" where
  "components p = filter (\<lambda>w. w \<noteq> []) (split_slash p)"


subsection \<open>Failure\<close>

text \<open>Sequencing of computations that may fail: the first failure is the result.\<close>

definition and_then :: "'e + 'a \<Rightarrow> ('a \<Rightarrow> 'e + 'b) \<Rightarrow> 'e + 'b" where
  "and_then r f = (case r of Inl e \<Rightarrow> Inl e | Inr v \<Rightarrow> f v)"

subsection \<open>The file system\<close>

text \<open>
  The exceptions that the calls of the script can raise: those of the operating system
  interface, those of the array library, and \<open>External\<close> for whatever a framework call
  raises.
\<close>

datatype py_exn = FileExistsError | NotADirectoryError | FileNotFoundError | IsADirectoryError
  | ValueError | IndexError | External string

text \<open>
  The file system below the working directory is a tree: a regular file (its content is
  not modelled) or a directory with named entries; where a name occurs twice the first
  entry counts. A relative path is resolved component by component.
\<close>

datatype node = File | Dir "(string \<times> node) list"

fun lookup :: "node \<Rightarrow> string list \<Rightarrow> node option" where
  "lookup n [] = Some n"
| "lookup File (c # cs) = None"
| "lookup (Dir es) (c # cs) = (case map_of es c of None \<Rightarrow> None | Some n \<Rightarrow> lookup n cs)"

definition isfile :: "node \<Rightarrow> string \<Rightarrow> bool" where
  "isfile fs p = (case lookup fs (components p) of Some File \<Rightarrow> True | _ \<Rightarrow> False)"

definition isdir :: "node \<Rightarrow> string \<Rightarrow> bool" where
  "isdir fs p = (case lookup fs (components p) of Some (Dir es) \<Rightarrow> True | _ \<Rightarrow> False)"

definition listdir :: "node \<Rightarrow> string \<Rightarrow> string list" where
  "listdir fs p = (case lookup fs (components p) of Some (Dir es) \<Rightarrow> remdups (map fst es) | _ \<Rightarrow> [])"

text \<open>
  \<^verbatim>\<open>os.makedirs(p)\<close> creates the directory \<open>p\<close> and every missing directory on the way
  to it. It raises when \<open>p\<close> exists already, and when a regular file stands on the way.
\<close>

fun new_dirs :: "string list \<Rightarrow> node" where
  "new_dirs [] = Dir []"
| "new_dirs (c # cs) = Dir [(c, new_dirs cs)]"

fun mkdirs :: "node \<Rightarrow> string list \<Rightarrow> py_exn + node" where
  "mkdirs n [] = Inl FileExistsError"
| "mkdirs File (c # cs) = Inl NotADirectoryError"
| "mkdirs (Dir es) (c # cs) =
     (case map_of es c of
        None \<Rightarrow> Inr (Dir (es @ [(c, new_dirs cs)]))
      | Some n \<Rightarrow> (case mkdirs n cs of Inl e \<Rightarrow> Inl e | Inr n' \<Rightarrow> Inr (Dir (AList.update c n' es))))"

definition makedirs :: "node \<Rightarrow> string \<Rightarrow> py_exn + node" where
  "makedirs fs p = mkdirs fs (components p)"

text \<open>
  \<^verbatim>\<open>glob.glob(pathname)\<close> for a pattern whose directory part has no wildcard: the
  entries of the directory whose names match the last component (\<^verbatim>\<open>fnmatch\<close> with
  \<open>*\<close> and \<open>?\<close>), names that start with a dot left out unless the pattern starts with one.
\<close>

fun fnmatch :: "string \<Rightarrow> string \<Rightarrow> bool" where
  "fnmatch [] [] = True"
| "fnmatch (c # cs) [] = False"
| "fnmatch [] (p # ps) = (p = CHR ''*'' \<and> fnmatch [] ps)"
| "fnmatch (c # cs) (p # ps) =
     (if p = CHR ''*'' then fnmatch (c # cs) ps \<or> fnmatch cs (p # ps)
      else (p = CHR ''?'' \<or> p = c) \<and> fnmatch cs ps)"

definition ishidden :: "string \<Rightarrow> bool" where
  "ishidden p = (p \<noteq> [] \<and> hd p = CHR ''.'')"

definition glob1 :: "node \<Rightarrow> string \<Rightarrow> string \<Rightarrow> string list" where
  "glob1 fs dirname pattern =
     (let names = listdir fs dirname;
          names = (if \<not> ishidden pattern then filter (\<lambda>x. \<not> ishidden x) names else names)
      in filter (\<lambda>x. fnmatch x pattern) names)"

definition basename :: "string \<Rightarrow> string" where
  "basename p = rev (takeWhile (\<lambda>c. c \<noteq> CHR ''/'') (rev p))"

definition dirname :: "string \<Rightarrow> string" where
  "dirname p =
     (let head = rev (dropWhile (\<lambda>c. c \<noteq> CHR ''/'') (rev p));
          stripped = rev (dropWhile (\<lambda>c. c = CHR ''/'') (rev head))
      in if stripped = [] then head else stripped)"

definition glob :: "node \<Rightarrow> string \<Rightarrow> string list" where
  "glob fs pathname = map (path_join (dirname pathname)) (glob1 fs (dirname pathname) (basename pathname))"

subsection \<open>Validating the paths\<close>

text \<open>
  Lines 100 to 113. The state of the two loops is the flag, the file system and the
  lines printed so far. An exception of \<^verbatim>\<open>os.makedirs\<close> ends the function: the result is
  then the exception with the state reached.
\<close>

type_synonym vstate = "bool \<times> node \<times> string list"

definition check_file :: "node \<Rightarrow> bool \<times> string list \<Rightarrow> string \<Rightarrow> bool \<times> string list" where
  "check_file fs s file =
     (if \<not> isfile fs file then (False, snd s @ [''[INFO] Data not found at '' @ file]) else s)"

definition check_dir :: "vstate \<Rightarrow> string \<Rightarrow> (py_exn \<times> vstate) + vstate" where
  "check_dir s directory =
     (case s of (flag, fs, out) \<Rightarrow>
        if \<not> isdir fs directory then
          (case makedirs fs directory of Inl e \<Rightarrow> Inl (e, s) | Inr fs' \<Rightarrow> Inr (flag, fs', out))
        else if length (glob fs (path_join directory ''*.*'')) > 0 then
          Inr (False, fs, out @ [''[INFO] Output directory '' @ directory @ '' must be empty''])
        else Inr (flag, fs, out))"

fun check_dirs :: "vstate \<Rightarrow> string list \<Rightarrow> (py_exn \<times> vstate) + vstate" where
  "check_dirs s [] = Inr s"
| "check_dirs s (d # ds) = (case check_dir s d of Inl e \<Rightarrow> Inl e | Inr s' \<Rightarrow> check_dirs s' ds)"

definition data_files :: "string list" where
  "data_files = [DATA_TRAIN, DATA_VALID]"

definition output_dirs :: "string list" where
  "output_dirs = [OUTPUT_DIR, mdl_dir, log_dir, cpt_dir, tbd_dir]"

definition validate_paths :: "node \<Rightarrow> (py_exn \<times> vstate) + vstate" where
  "validate_paths fs =
     (let (flag, out) = fold (\<lambda>file s. check_file fs s file) data_files (True, [])
      in check_dirs (flag, fs, out) output_dirs)"

text \<open>
  \<open>dotted x\<close>: the name \<open>x\<close> has a dot and does not start with one. \<open>refusing fs d\<close>: \<open>d\<close>
  is a directory with a dotted entry. \<open>blocked fs p\<close>: a regular file stands at \<open>p\<close> or at
  one of the paths above it.
\<close>

definition dotted :: "string \<Rightarrow> bool" where
  "dotted x = (\<not> ishidden x \<and> CHR ''.'' \<in> set x)"

definition refusing :: "node \<Rightarrow> string \<Rightarrow> bool" where
  "refusing fs d = (isdir fs d \<and> list_ex dotted (listdir fs d))"

definition blocked :: "node \<Rightarrow> string list \<Rightarrow> bool" where
  "blocked fs p = list_ex (\<lambda>q. lookup fs q = Some File) (prefixes p)"

subsection \<open>Loading the data\<close>

text \<open>
  Lines 117 to 147. A loaded matrix has a number of columns and a list of rows of
  integers, every row with that many entries (\<open>wf_matrix\<close>).

  \<^verbatim>\<open>numpy.random.shuffle\<close> goes through the rows from the last one down to the second and
  exchanges row \<open>i\<close> with a row drawn from \<open>0..i\<close>. The draws are a parameter; a draw is
  reduced into its range.
\<close>

record matrix =
  ncols :: nat
  rows :: "int list list"

definition wf_matrix :: "matrix \<Rightarrow> bool" where
  "wf_matrix m = list_all (\<lambda>r. length r = ncols m) (rows m)"

fun shuffle_from :: "(nat \<Rightarrow> nat) \<Rightarrow> nat \<Rightarrow> 'a list \<Rightarrow> 'a list" where
  "shuffle_from rnd 0 x = x"
| "shuffle_from rnd (Suc i) x =
     (let j = rnd (Suc i) mod (Suc (Suc i))
      in shuffle_from rnd i (x[Suc i := x ! j, j := x ! Suc i]))"

definition shuffle :: "(nat \<Rightarrow> nat) \<Rightarrow> matrix \<Rightarrow> matrix" where
  "shuffle rnd m = m\<lparr>rows := shuffle_from rnd (length (rows m) - 1) (rows m)\<rparr>"

text \<open>
  \<^verbatim>\<open>reshape\<close> keeps the entries in row-major order: \<open>reshape_rows n xs\<close> cuts \<open>xs\<close> into
  pieces of \<open>n\<close> entries. \<^verbatim>\<open>reshape((-1,) + shape)\<close> raises when the number of entries is
  not a multiple of the size of \<open>shape\<close>; \<^verbatim>\<open>reshape(shape)\<close> raises when it is not that size.
\<close>

definition reshape_rows :: "nat \<Rightarrow> 'a list \<Rightarrow> 'a list list" where
  "reshape_rows n xs = map (\<lambda>i. take n (drop (i * n) xs)) [0..<length xs div n]"

type_synonym 'a image = "'a list list list"

definition reshape_image :: "nat \<times> nat \<times> nat \<Rightarrow> 'a list \<Rightarrow> py_exn + 'a image" where
  "reshape_image shape xs =
     (case shape of (h, w, c) \<Rightarrow>
        if length xs \<noteq> h * w * c then Inl ValueError
        else Inr (map (reshape_rows c) (reshape_rows (w * c) xs)))"

definition reshape_images :: "nat \<times> nat \<times> nat \<Rightarrow> 'a list \<Rightarrow> py_exn + 'a image list" where
  "reshape_images shape xs =
     (case shape of (h, w, c) \<Rightarrow>
        if h * w * c = 0 \<or> length xs mod (h * w * c) \<noteq> 0 then Inl ValueError
        else Inr (map (\<lambda>v. map (reshape_rows c) (reshape_rows (w * c) v)) (reshape_rows (h * w * c) xs)))"

text \<open>
  \<^verbatim>\<open>data[:, 1:]\<close> and \<^verbatim>\<open>data[:, 0]\<close>; the latter raises on a matrix without columns.
  \<^verbatim>\<open>astype('float32') / 255.0\<close> is the division of every entry by 255.
\<close>

definition columns_from1 :: "matrix \<Rightarrow> int list list" where
  "columns_from1 m = map (drop 1) (rows m)"

definition column0 :: "matrix \<Rightarrow> py_exn + int list" where
  "column0 m = (if ncols m = 0 then Inl IndexError else Inr (map hd (rows m)))"

definition scale255 :: "int image list \<Rightarrow> real image list" where
  "scale255 x = map (map (map (map (\<lambda>v. real_of_int v / 255)))) x"

text \<open>
  \<^verbatim>\<open>keras.utils.to_categorical(y)\<close> without a number of classes: the number of classes is
  the largest label plus one, the result has one row per label, all zero but for a one at
  the index of the label. The library takes the maximum of \<open>y\<close> (which raises on no
  labels), allocates (which raises on a negative size) and assigns by index (a negative
  index counts from the end; out of range it raises).
\<close>

definition one_hot :: "nat \<Rightarrow> nat \<Rightarrow> real list" where
  "one_hot num_classes k = map (\<lambda>c. if c = k then 1 else 0) [0..<num_classes]"

definition to_categorical :: "int list \<Rightarrow> py_exn + real list list" where
  "to_categorical y =
     (if y = [] then Inl ValueError
      else let num_classes = Max (set y) + 1 in
        if num_classes < 0 then Inl ValueError
        else if list_ex (\<lambda>v. v < - num_classes) y then Inl IndexError
        else Inr (map (\<lambda>v. one_hot (nat num_classes) (nat (if v < 0 then v + num_classes else v))) y))"

text \<open>
  The two branches of \<^verbatim>\<open>load_data\<close> for the images. \<open>INPUT_DSHAPE\<close> is a shape, never
  \<^verbatim>\<open>None\<close>, so the test of line 124 is the comparison of the two shapes. In the second
  branch \<^verbatim>\<open>cv2.resize\<close> is a parameter. \<open>arrays\<close> is lines 124 to 147.
\<close>

fun sequence :: "('e + 'a) list \<Rightarrow> 'e + 'a list" where
  "sequence [] = Inr []"
| "sequence (r # rs) = and_then r (\<lambda>v. and_then (sequence rs) (\<lambda>vs. Inr (v # vs)))"

definition images_direct :: "matrix \<Rightarrow> py_exn + real image list" where
  "images_direct m = and_then (reshape_images INPUT_DSHAPE (concat (columns_from1 m))) (\<lambda>x. Inr (scale255 x))"

definition images_resized :: "(int image \<Rightarrow> nat \<times> nat \<Rightarrow> py_exn + int image) \<Rightarrow> matrix \<Rightarrow> py_exn + int image list" where
  "images_resized cv2_resize m =
     sequence (map (\<lambda>sample. and_then (reshape_image IMAGE_SIZE sample)
                 (\<lambda>x. cv2_resize x (fst INPUT_DSHAPE, fst (snd INPUT_DSHAPE))))
               (columns_from1 m))"

definition labels :: "matrix \<Rightarrow> py_exn + real list list" where
  "labels m = and_then (column0 m) to_categorical"

definition arrays :: "(int image \<Rightarrow> nat \<times> nat \<Rightarrow> py_exn + int image) \<Rightarrow> matrix \<Rightarrow> matrix
    \<Rightarrow> py_exn + ((real image list \<times> real list list) \<times> (real image list \<times> real list list))" where
  "arrays cv2_resize data_train data_valid =
     and_then
       (if IMAGE_SIZE = INPUT_DSHAPE then
          and_then (images_direct data_train) (\<lambda>x_train.
          and_then (images_direct data_valid) (\<lambda>x_valid. Inr (x_train, x_valid)))
        else
          and_then (images_resized cv2_resize data_train) (\<lambda>x_train.
          and_then (images_resized cv2_resize data_valid) (\<lambda>x_valid.
          Inr (scale255 x_train, scale255 x_valid))))
       (\<lambda>(x_train, x_valid).
     and_then (labels data_train) (\<lambda>y_train.
     and_then (labels data_valid) (\<lambda>y_valid.
     Inr ((x_train, y_train), (x_valid, y_valid)))))"


text \<open>
  What a row of a matrix stands for: the image of its entries from the second one on, and
  the one-hot vector of its first entry. \<open>dataset m\<close>: the matrix has at least one row,
  each of a label that is not negative and the \<open>104 * 104 * 3\<close> intensities of an image.
\<close>

definition row_image :: "int list \<Rightarrow> real image" where
  "row_image r = map (map (map (\<lambda>v. real_of_int v / 255)))
     (map (reshape_rows 3) (reshape_rows (104 * 3) (drop 1 r)))"

definition num_classes :: "matrix \<Rightarrow> nat" where
  "num_classes m = nat (Max (set (map hd (rows m))) + 1)"

definition row_label :: "nat \<Rightarrow> int list \<Rightarrow> real list" where
  "row_label n r = one_hot n (nat (hd r))"

definition dataset :: "matrix \<Rightarrow> bool" where
  "dataset m = (wf_matrix m \<and> ncols m = 1 + 104 * 104 * 3 \<and> rows m \<noteq> []
     \<and> list_all (\<lambda>r. 0 \<le> hd r) (rows m))"

subsection \<open>The learning-rate schedule\<close>

text \<open>
  Line 215: \<^verbatim>\<open>schedule=lambda epoch: LEARN_RATE * (DECAY_RATE**epoch)\<close>. The scheduler
  callback calls it with the index of the epoch, counted from 0.
\<close>

definition schedule :: "nat \<Rightarrow> real" where
  "schedule epoch = LEARN_RATE * (DECAY_RATE ^ epoch)"

subsection \<open>The margin loss\<close>

text \<open>
  Lines 151 to 155. The labels and the predictions are tensors of rank 2, one row per
  sample and one column per class, written as lists of rows. The operations of the
  backend that the loss uses are modelled as follows.
  \<^item> An operation between a scalar and a tensor (\<^verbatim>\<open>0.9 - y_pred\<close>, \<^verbatim>\<open>1 - y_true\<close>,
    \<^verbatim>\<open>0.5 * ...\<close>, \<^verbatim>\<open>backend.maximum(0.0, ...)\<close>) and \<^verbatim>\<open>backend.square\<close> act on every
    entry.
  \<^item> An operation between two tensors (\<^verbatim>\<open>*\<close>, \<^verbatim>\<open>+\<close>) broadcasts its operands, along
    the rows and along the columns: two axes of one length are paired position by
    position, an axis of length 1 is repeated along the other operand's axis, and any
    other pair of lengths is refused by the backend (\<open>Shapes_differ\<close>). A tensor is
    rectangular, so that every pair of rows meets the same case. (A tensor without rows
    carries no number of columns in this representation.)
  \<^item> The entries are real numbers: a float that is not a number, or an overflow to
    infinity, has no counterpart here.
  \<^item> \<^verbatim>\<open>backend.sum(loss, 1)\<close> adds up every row; \<^verbatim>\<open>backend.mean\<close> of a vector is its
    sum divided by its length, and not a number for the empty vector.
\<close>

type_synonym tensor = "real list list"

datatype backend_error = Shapes_differ | Not_a_number

definition scalar_minus :: "real \<Rightarrow> tensor \<Rightarrow> tensor" where
  "scalar_minus c t = map (map (\<lambda>v. c - v)) t"

definition minus_scalar :: "tensor \<Rightarrow> real \<Rightarrow> tensor" where
  "minus_scalar t c = map (map (\<lambda>v. v - c)) t"

definition scalar_times :: "real \<Rightarrow> tensor \<Rightarrow> tensor" where
  "scalar_times c t = map (map (\<lambda>v. c * v)) t"

definition maximum :: "real \<Rightarrow> tensor \<Rightarrow> tensor" where
  "maximum c t = map (map (\<lambda>v. max c v)) t"

definition square :: "tensor \<Rightarrow> tensor" where
  "square t = map (map (\<lambda>v. v * v)) t"

definition broadcast :: "'a list \<Rightarrow> 'b list \<Rightarrow> backend_error + ('a \<times> 'b) list" where
  "broadcast a b =
     (if length a = length b then Inr (zip a b)
      else if length a = 1 then Inr (map (\<lambda>y. (hd a, y)) b)
      else if length b = 1 then Inr (map (\<lambda>x. (x, hd b)) a)
      else Inl Shapes_differ)"

definition elementwise_row :: "(real \<Rightarrow> real \<Rightarrow> real) \<Rightarrow> real list \<times> real list \<Rightarrow> backend_error + real list" where
  "elementwise_row f rs =
     and_then (broadcast (fst rs) (snd rs)) (\<lambda>ps. Inr (map (\<lambda>p. f (fst p) (snd p)) ps))"

definition elementwise :: "(real \<Rightarrow> real \<Rightarrow> real) \<Rightarrow> tensor \<Rightarrow> tensor \<Rightarrow> backend_error + tensor" where
  "elementwise f a b =
     and_then (broadcast a b) (\<lambda>pairs. sequence (map (elementwise_row f) pairs))"

definition sum_axis1 :: "tensor \<Rightarrow> real list" where
  "sum_axis1 t = map sum_list t"

definition mean :: "real list \<Rightarrow> backend_error + real" where
  "mean v = (if v = [] then Inl Not_a_number else Inr (sum_list v / real (length v)))"

definition margin_loss :: "tensor \<Rightarrow> tensor \<Rightarrow> backend_error + real" where
  "margin_loss y_true y_pred =
     and_then (elementwise (*) y_true (square (maximum 0 (scalar_minus (9 / 10) y_pred)))) (\<lambda>pos.
     and_then (elementwise (*) (scalar_times (1 / 2) (scalar_minus 1 y_true))
                 (square (maximum 0 (minus_scalar y_pred (1 / 10))))) (\<lambda>neg.
     and_then (elementwise (+) pos neg) (\<lambda>loss.
     mean (sum_axis1 loss))))"

text \<open>
  The loss as the specification words it: the mean over the samples of the sum over the
  classes of \<open>y_true * max(0, 0.9 - y_pred)\<^sup>2 + 0.5 * (1 - y_true) * max(0, y_pred - 0.1)\<^sup>2\<close>.
\<close>

definition margin_term :: "real \<Rightarrow> real \<Rightarrow> real" where
  "margin_term t p = t * (max 0 (9 / 10 - p))\<^sup>2 + (1 / 2) * (1 - t) * (max 0 (p - 1 / 10))\<^sup>2"

definition margin_loss_spec :: "tensor \<Rightarrow> tensor \<Rightarrow> real" where
  "margin_loss_spec y_true y_pred =
     (\<Sum>i<length y_true. \<Sum>j<length (y_true ! i). margin_term (y_true ! i ! j) (y_pred ! i ! j))
       / real (length y_true)"

subsection \<open>The callbacks\<close>

text \<open>
  Lines 212 to 221. A callback is written as the constructor call that makes it, with the
  arguments in the order of the source.
\<close>

datatype callback =
    CSVLogger string bool
  | EarlyStopping string real nat nat
  | LearningRateScheduler "nat \<Rightarrow> real" nat
  | ModelCheckpoint string string bool bool nat
  | TensorBoard string nat bool bool
  | Telegram "string option" "string option" string string

definition callbacks :: "callback list" where
  "callbacks =
     (let cb_log = CSVLogger log_file True;
          cb_stp = EarlyStopping (''val_'' @ ARCHITECTURE @ ''_loss'') 0 10 1;
          cb_lrs = LearningRateScheduler schedule 0;
          cb_cpt_best = ModelCheckpoint cpt_best (''val_'' @ ARCHITECTURE @ ''_acc'') True True 1;
          cb_cpt_last = ModelCheckpoint cpt_last (''val_'' @ ARCHITECTURE @ ''_acc'') False True 0;
          cb_tbd = TensorBoard tbd_dir BATCH_SIZE True True;
          cb_tel = Telegram AUTH_TOKEN TELCHAT_ID (''val_'' @ ARCHITECTURE @ ''_acc'') OUTPUT_DIR
      in [cb_log, cb_stp, cb_lrs, cb_cpt_best, cb_cpt_last, cb_tbd, cb_tel])"

subsection \<open>Training\<close>

text \<open>
  Lines 262 to 312. The dictionary of the acknowledgement is a record; \<open>upper\<close> is
  \<^verbatim>\<open>str.upper\<close> on ASCII letters.
\<close>

record message =
  chat_id :: "string option"
  msg_text :: string
  parse_mode :: string

definition upper :: "string \<Rightarrow> string" where
  "upper s = map (\<lambda>c. let n = (of_char c :: nat) in if 97 \<le> n \<and> n \<le> 122 then char_of (n - 32) else c) s"

text \<open>
  The arguments of \<^verbatim>\<open>model_train.fit\<close>, and the calls that leave the script: every one is
  recorded, in order, in the trace of the run. What such a call returns or raises is a
  parameter of the model, collected in the record \<open>env\<close>; \<^verbatim>\<open>build_model\<close> consists of calls
  to the framework only and is such a parameter as a whole. A model is a value of type
  \<open>'m\<close>, a training history one of type \<open>'h\<close>.
\<close>

record 'm fit_call =
  fit_model :: 'm
  fit_x :: "real image list \<times> real list list"
  fit_y :: "real list list \<times> real image list"
  batch_size :: nat
  epochs :: nat
  fit_callbacks :: "callback list"
  validation_data :: "(real image list \<times> real list list) \<times> (real list list \<times> real image list)"

datatype ('m, 'h) event =
    Load_data
  | Build_model
  | Summary 'm
  | To_json 'm
  | Open_write string
  | Task_id callback
  | Send_message callback message
  | is_Fit: Fit "'m fit_call"
  | Figure 'h "string list"
  | Savefig string
  | Show

record ('m, 'h) env =
  loadmat :: "string \<Rightarrow> py_exn + matrix"
  rnd_train :: "nat \<Rightarrow> nat"
  rnd_valid :: "nat \<Rightarrow> nat"
  cv2_resize :: "int image \<Rightarrow> nat \<times> nat \<Rightarrow> py_exn + int image"
  build_model :: "py_exn + 'm \<times> 'm"
  summary :: "'m \<Rightarrow> py_exn + unit"
  to_json :: "'m \<Rightarrow> py_exn + string"
  task_id :: "callback \<Rightarrow> py_exn + string"
  send_message :: "callback \<Rightarrow> message \<Rightarrow> py_exn + unit"
  fit :: "'m fit_call \<Rightarrow> py_exn + 'h"
  figure :: "'h \<Rightarrow> string list \<Rightarrow> py_exn + unit"
  savefig :: "string \<Rightarrow> py_exn + unit"
  pyplot_show :: "py_exn + unit"

text \<open>
  The state of a run: the file system, the lines printed and the trace. A statement of
  \<^verbatim>\<open>train\<close> maps a state to a result, a value or the exception raised, and a new state;
  \<open>seq\<close> runs one statement after another and stops at the first exception.
\<close>

record ('m, 'h) world =
  filesystem :: node
  stdout :: "string list"
  trace :: "('m, 'h) event list"

type_synonym ('m, 'h, 'a) prog = "('m, 'h) world \<Rightarrow> (py_exn + 'a) \<times> ('m, 'h) world"

definition seq :: "('m, 'h, 'a) prog \<Rightarrow> ('a \<Rightarrow> ('m, 'h, 'b) prog) \<Rightarrow> ('m, 'h, 'b) prog" where
  "seq p f w = (case p w of (Inl e, w') \<Rightarrow> (Inl e, w') | (Inr v, w') \<Rightarrow> f v w')"

definition return :: "'a \<Rightarrow> ('m, 'h, 'a) prog" where
  "return v w = (Inr v, w)"

definition print :: "string \<Rightarrow> ('m, 'h, unit) prog" where
  "print s w = (Inr (), w\<lparr>stdout := stdout w @ [s]\<rparr>)"

definition call :: "('m, 'h) event \<Rightarrow> py_exn + 'a \<Rightarrow> ('m, 'h, 'a) prog" where
  "call ev outcome w = (outcome, w\<lparr>trace := trace w @ [ev]\<rparr>)"

text \<open>
  \<^verbatim>\<open>open(path, 'w')\<close> and \<^verbatim>\<open>write\<close>: the file is created or replaced; this raises when
  the path is a directory or when its directory does not exist.
\<close>

fun write_at :: "node \<Rightarrow> string list \<Rightarrow> py_exn + node" where
  "write_at File [] = Inr File"
| "write_at (Dir es) [] = Inl IsADirectoryError"
| "write_at File (c # cs) = Inl NotADirectoryError"
| "write_at (Dir es) (c # cs) =
     (case map_of es c of
        None \<Rightarrow> if cs = [] then Inr (Dir (es @ [(c, File)])) else Inl FileNotFoundError
      | Some n \<Rightarrow> (case write_at n cs of Inl e \<Rightarrow> Inl e | Inr n' \<Rightarrow> Inr (Dir (AList.update c n' es))))"

definition open_write :: "string \<Rightarrow> string \<Rightarrow> ('m, 'h, unit) prog" where
  "open_write path content w =
     (case write_at (filesystem w) (components path) of
        Inl e \<Rightarrow> (Inl e, w\<lparr>trace := trace w @ [Open_write path]\<rparr>)
      | Inr fs' \<Rightarrow> (Inr (), w\<lparr>filesystem := fs', trace := trace w @ [Open_write path]\<rparr>))"

definition run_validate_paths :: "('m, 'h, bool) prog" where
  "run_validate_paths w =
     (case validate_paths (filesystem w) of
        Inl (e, (flag, fs', out)) \<Rightarrow> (Inl e, w\<lparr>filesystem := fs', stdout := stdout w @ out\<rparr>)
      | Inr (flag, fs', out) \<Rightarrow> (Inr flag, w\<lparr>filesystem := fs', stdout := stdout w @ out\<rparr>))"

definition load_data :: "('m, 'h) env \<Rightarrow>
    py_exn + ((real image list \<times> real list list) \<times> (real image list \<times> real list list))" where
  "load_data env =
     and_then (loadmat env DATA_TRAIN) (\<lambda>data_train.
     and_then (loadmat env DATA_VALID) (\<lambda>data_valid.
     let data_train = shuffle (rnd_train env) data_train;
         data_valid = shuffle (rnd_valid env) data_valid
     in arrays (cv2_resize env) data_train data_valid))"

definition loss_curves :: "string list" where
  "loss_curves = [''loss'', ''val_loss'', ARCHITECTURE @ ''_loss'', ''val_'' @ ARCHITECTURE @ ''_loss'',
     DECODER_NAME @ ''_loss'', ''val_'' @ DECODER_NAME @ ''_loss'']"

definition accuracy_curves :: "string list" where
  "accuracy_curves = [ARCHITECTURE @ ''_acc'', ''val_'' @ ARCHITECTURE @ ''_acc'']"

definition plot :: "('m, 'h) env \<Rightarrow> 'h \<Rightarrow> ('m, 'h, unit) prog" where
  "plot env train_history =
     seq (call (Figure train_history loss_curves) (figure env train_history loss_curves)) (\<lambda>_.
     seq (call (Savefig plot_loss_file) (savefig env plot_loss_file)) (\<lambda>_.
     seq (call Show (pyplot_show env)) (\<lambda>_.
     seq (call (Figure train_history accuracy_curves) (figure env train_history accuracy_curves)) (\<lambda>_.
     seq (call (Savefig plot_accuracy_file) (savefig env plot_accuracy_file)) (\<lambda>_.
     call Show (pyplot_show env))))))"

definition acknowledgement :: "string \<Rightarrow> message" where
  "acknowledgement tid =
     \<lparr>chat_id = TELCHAT_ID,
      msg_text = [CHR 0x60] @ ''Received a new training request.'' @ [CHR 0x0A] @ ''TASK ID: '' @ tid
        @ [CHR 0x0A] @ ''MODEL  : '' @ upper ARCHITECTURE @ [CHR 0x0A] @ ''DATASET: ''
        @ upper DATASET_ID @ [CHR 0x60],
      parse_mode = ''Markdown''\<rparr>"

definition train :: "('m, 'h) env \<Rightarrow> ('m, 'h, unit) prog" where
  "train env =
     seq run_validate_paths (\<lambda>valid.
     if \<not> valid then return ()
     else
     seq (print ''[INFO] Loading data... '') (\<lambda>_.
     seq (call Load_data (load_data env)) (\<lambda>((x_train, y_train), (x_valid, y_valid)).
     seq (print ''done'') (\<lambda>_.
     seq (print ''[INFO] Building model... '') (\<lambda>_.
     seq (call Build_model (build_model env)) (\<lambda>(model_train, model_evaln).
     seq (print ''done'') (\<lambda>_.
     seq (call (Summary model_train) (summary env model_train)) (\<lambda>_.
     seq (call (Summary model_evaln) (summary env model_evaln)) (\<lambda>_.
     seq (call (To_json model_train) (to_json env model_train)) (\<lambda>model_train_json.
     seq (call (To_json model_evaln) (to_json env model_evaln)) (\<lambda>model_evaln_json.
     seq (open_write mdl_train_file model_train_json) (\<lambda>_.
     seq (open_write mdl_evaln_file model_evaln_json) (\<lambda>_.
     let cb_list = callbacks in
     seq (call (Task_id (last cb_list)) (task_id env (last cb_list))) (\<lambda>tid.
     let data = acknowledgement tid in
     seq (call (Send_message (last cb_list) data) (send_message env (last cb_list) data)) (\<lambda>_.
     let args = \<lparr>fit_model = model_train, fit_x = (x_train, y_train), fit_y = (y_train, x_train),
                 batch_size = BATCH_SIZE, epochs = NUM_EPOCHS, fit_callbacks = cb_list,
                 validation_data = ((x_valid, y_valid), (y_valid, x_valid))\<rparr> in
     seq (call (Fit args) (fit env args)) (\<lambda>train_history.
     seq (plot env train_history) (\<lambda>_.
     return ())))))))))))))))))"





subsection \<open>What the arrays hold\<close>

text \<open>
  \<open>is_image_of x r\<close>: \<open>x\<close> has the shape \<open>(104, 104, 3)\<close> and its entries are those of the
  row \<open>r\<close> from the second one on, in row-major order, divided by 255.
  \<open>is_one_hot_of y l n\<close>: \<open>y\<close> is the one-hot vector of the label \<open>l\<close> among \<open>n\<close> classes.
\<close>

definition is_image_of :: "real image \<Rightarrow> int list \<Rightarrow> bool" where
  "is_image_of x r \<longleftrightarrow>
     length x = 104 \<and>
     (\<forall>i<104. length (x ! i) = 104 \<and>
       (\<forall>j<104. length (x ! i ! j) = 3 \<and>
         (\<forall>k<3. x ! i ! j ! k = real_of_int (r ! (1 + (i * 104 + j) * 3 + k)) / 255)))"

definition is_one_hot_of :: "real list \<Rightarrow> int \<Rightarrow> nat \<Rightarrow> bool" where
  "is_one_hot_of y l n \<longleftrightarrow>
     length y = n \<and> 0 \<le> l \<and> l < int n \<and> (\<forall>c<n. y ! c = (if int c = l then 1 else 0))"

subsection \<open>Sample inputs\<close>

definition sample_row :: "int \<Rightarrow> int \<Rightarrow> int list" where
  "sample_row l v = l # replicate (104 * 104 * 3) v"

definition sample_matrix :: "int list list \<Rightarrow> matrix" where
  "sample_matrix rs = \<lparr>ncols = 1 + 104 * 104 * 3, rows = rs\<rparr>"


definition env_sample :: "(nat, nat) env" where
  "env_sample = \<lparr>loadmat = (\<lambda>p. if p = DATA_TRAIN then Inr (sample_matrix [sample_row 2 255, sample_row 0 51])
                               else Inr (sample_matrix [sample_row 1 0])),
     rnd_train = (\<lambda>i. 0), rnd_valid = (\<lambda>i. 0),
     cv2_resize = (\<lambda>x s. Inr x), build_model = Inr (1, 2), summary = (\<lambda>m. Inr ()),
     to_json = (\<lambda>m. Inr ''{}''), task_id = (\<lambda>c. Inr ''7''), send_message = (\<lambda>c m. Inr ()),
     fit = (\<lambda>a. Inr 0), figure = (\<lambda>h k. Inr ()), savefig = (\<lambda>p. Inr ()), pyplot_show = Inr ()\<rparr>"







section \<open>Properties\<close>

subsection \<open>The values of the paths\<close>

lemmas config_defs = DATASET_ID_def ARCHITECTURE_def OUTPUT_DIR_def DATA_TRAIN_def DATA_VALID_def
lemmas path_defs = mdl_dir_def mdl_train_file_def mdl_evaln_file_def log_dir_def cpt_dir_def
  tbd_dir_def log_file_def cpt_best_def cpt_last_def plot_loss_file_def plot_accuracy_file_def

lemma OUTPUT_DIR_value: "OUTPUT_DIR = ''output/synthetic_digits/capsnet/''"
  by (simp add: config_defs)

lemma dir_values:
  "mdl_dir = ''output/synthetic_digits/capsnet/models''"
  "log_dir = ''output/synthetic_digits/capsnet/logs''"
  "cpt_dir = ''output/synthetic_digits/capsnet/checkpoints''"
  "tbd_dir = ''output/synthetic_digits/capsnet/tensorboard''"
  by (simp_all add: path_defs OUTPUT_DIR_value path_join_def)


lemma components_values:
  "components OUTPUT_DIR = [''output'', ''synthetic_digits'', ''capsnet'']"
  "components mdl_dir = [''output'', ''synthetic_digits'', ''capsnet'', ''models'']"
  "components log_dir = [''output'', ''synthetic_digits'', ''capsnet'', ''logs'']"
  "components cpt_dir = [''output'', ''synthetic_digits'', ''capsnet'', ''checkpoints'']"
  "components tbd_dir = [''output'', ''synthetic_digits'', ''capsnet'', ''tensorboard'']"
  by (simp_all add: OUTPUT_DIR_value dir_values components_def)


subsection \<open>Creating directories\<close>

lemma blocked_iff: "blocked fs p \<longleftrightarrow> (\<exists>q. prefix q p \<and> lookup fs q = Some File)"
  by (auto simp: blocked_def list_ex_iff)

lemma lookup_File: "lookup File q = (if q = [] then Some File else None)"
  by (cases q) simp_all

lemma lookup_append:
  "lookup n (p @ q) = (case lookup n p of None \<Rightarrow> None | Some m \<Rightarrow> lookup m q)"
proof (induction n p rule: lookup.induct)
  case (1 n)
  show ?case by simp
next
  case (2 c cs)
  show ?case by simp
next
  case (3 es c cs)
  then show ?case by (simp split: option.splits)
qed

lemma lookup_new_dirs_self: "lookup (new_dirs cs) cs = Some (Dir [])"
  by (induction cs) simp_all

lemma lookup_new_dirs_prefix:
  "prefix q cs \<Longrightarrow> \<exists>es. lookup (new_dirs cs) q = Some (Dir es)"
proof (induction cs arbitrary: q)
  case Nil
  then show ?case by simp
next
  case (Cons c cs)
  show ?case
  proof (cases q)
    case Nil
    then show ?thesis by simp
  next
    case (Cons c' q')
    with Cons.prems have "c' = c" "prefix q' cs" by simp_all
    with Cons.IH [of q'] Cons show ?thesis by simp
  qed
qed

lemma lookup_new_dirs_other:
  "\<not> prefix q cs \<Longrightarrow> lookup (new_dirs cs) q = None"
proof (induction cs arbitrary: q)
  case Nil
  then show ?case by (cases q) simp_all
next
  case (Cons c cs)
  show ?case
  proof (cases q)
    case Nil
    with Cons.prems show ?thesis by simp
  next
    case (Cons c' q')
    with Cons.prems Cons.IH [of q'] show ?thesis by (cases "c' = c") simp_all
  qed
qed

lemma mkdirs_prefix:
  "mkdirs n p = Inr n' \<Longrightarrow> prefix q p \<Longrightarrow> \<exists>es. lookup n' q = Some (Dir es)"
proof (induction n p arbitrary: n' q rule: mkdirs.induct)
  case (1 n)
  then show ?case by simp
next
  case (2 c cs)
  then show ?case by simp
next
  case (3 es c cs)
  show ?case
  proof (cases q)
    case Nil
    with "3.prems" show ?thesis by (auto split: option.splits sum.splits)
  next
    case (Cons c' q')
    with "3.prems" have q: "c' = c" "prefix q' cs" by simp_all
    show ?thesis
    proof (cases "map_of es c")
      case None
      with "3.prems" have "n' = Dir (es @ [(c, new_dirs cs)])" by simp
      with None q Cons lookup_new_dirs_prefix [of q' cs] show ?thesis
        by (auto simp: map_add_def)
    next
      case (Some m)
      with "3.prems" obtain m' where m': "mkdirs m cs = Inr m'" "n' = Dir (AList.update c m' es)"
        by (auto split: sum.splits)
      from "3.IH" [OF Some m'(1) q(2)] obtain es' where "lookup m' q' = Some (Dir es')" by blast
      with m' q Cons show ?thesis by (simp add: update_conv')
    qed
  qed
qed

lemma mkdirs_frame:
  "mkdirs n p = Inr n' \<Longrightarrow> \<not> prefix q p \<Longrightarrow> \<not> prefix p q \<Longrightarrow> lookup n' q = lookup n q"
proof (induction n p arbitrary: n' q rule: mkdirs.induct)
  case (1 n)
  then show ?case by simp
next
  case (2 c cs)
  then show ?case by simp
next
  case (3 es c cs)
  from "3.prems" obtain c' q' where q: "q = c' # q'" by (cases q) auto
  show ?case
  proof (cases "map_of es c")
    case None
    with "3.prems" have n': "n' = Dir (es @ [(c, new_dirs cs)])" by simp
    show ?thesis
    proof (cases "c' = c")
      case True
      with "3.prems" q have "\<not> prefix q' cs" by simp
      with n' None q True show ?thesis
        by (simp add: map_add_def lookup_new_dirs_other)
    next
      case False
      with n' q show ?thesis by (simp add: map_add_def split: option.splits)
    qed
  next
    case (Some m)
    with "3.prems" obtain m' where m': "mkdirs m cs = Inr m'" "n' = Dir (AList.update c m' es)"
      by (auto split: sum.splits)
    show ?thesis
    proof (cases "c' = c")
      case True
      with "3.prems" q have "\<not> prefix q' cs" "\<not> prefix cs q'" by simp_all
      from "3.IH" [OF Some m'(1) this] m' q True Some show ?thesis
        by (simp add: update_conv')
    next
      case False
      with m' q show ?thesis by (simp add: update_conv')
    qed
  qed
qed

lemma mkdirs_was_absent: "mkdirs n p = Inr n' \<Longrightarrow> lookup n p = None"
proof (induction n p arbitrary: n' rule: mkdirs.induct)
  case (1 n)
  then show ?case by simp
next
  case (2 c cs)
  then show ?case by simp
next
  case (3 es c cs)
  then show ?case by (auto split: option.splits sum.splits)
qed

lemma mkdirs_below:
  "mkdirs n p = Inr n' \<Longrightarrow> lookup n' (p @ c # cs) = None"
proof (induction n p arbitrary: n' rule: mkdirs.induct)
  case (1 n)
  then show ?case by simp
next
  case (2 c cs)
  then show ?case by simp
next
  case (3 es d ds)
  show ?case
  proof (cases "map_of es d")
    case None
    with "3.prems" have "n' = Dir (es @ [(d, new_dirs ds)])" by simp
    with None show ?thesis
      by (simp add: map_add_def lookup_new_dirs_other)
  next
    case (Some m)
    with "3.prems" obtain m' where m': "mkdirs m ds = Inr m'" "n' = Dir (AList.update d m' es)"
      by (auto split: sum.splits)
    from "3.IH" [OF Some m'(1)] m' show ?thesis by (simp add: update_conv')
  qed
qed

lemma mkdirs_succeeds:
  "lookup n p = None \<Longrightarrow> \<not> blocked n p \<Longrightarrow> \<exists>n'. mkdirs n p = Inr n'"
proof (induction n p rule: mkdirs.induct)
  case (1 n)
  then show ?case by simp
next
  case (2 c cs)
  have "prefix [] (c # cs)" "lookup File [] = Some File" by simp_all
  then have "blocked File (c # cs)" unfolding blocked_iff by blast
  with 2 show ?case by simp
next
  case (3 es c cs)
  show ?case
  proof (cases "map_of es c")
    case None
    then show ?thesis by simp
  next
    case (Some m)
    from "3.prems" Some have a: "lookup m cs = None" by simp
    have "\<not> blocked m cs"
    proof
      assume "blocked m cs"
      then obtain q where "prefix q cs" "lookup m q = Some File"
        unfolding blocked_iff by blast
      then have "prefix (c # q) (c # cs)" "lookup (Dir es) (c # q) = Some File"
        using Some by simp_all
      then have "blocked (Dir es) (c # cs)"
        unfolding blocked_iff by blast
      with "3.prems" show False by simp
    qed
    from "3.IH" [OF Some a this] Some show ?thesis by auto
  qed
qed

lemma mkdirs_fails:
  "blocked n p \<Longrightarrow> \<exists>e. mkdirs n p = Inl e"
proof (induction n p rule: mkdirs.induct)
  case (1 n)
  then show ?case by simp
next
  case (2 c cs)
  then show ?case by simp
next
  case (3 es c cs)
  from "3.prems" obtain q where q: "prefix q (c # cs)" "lookup (Dir es) q = Some File"
    unfolding blocked_iff by blast
  then obtain q' where q': "q = c # q'" "prefix q' cs" by (cases q) auto
  show ?case
  proof (cases "map_of es c")
    case None
    with q q' show ?thesis by simp
  next
    case (Some m)
    with q q' have "lookup m q' = Some File" by simp
    with q' have "blocked m cs"
      unfolding blocked_iff by blast
    from "3.IH" [OF Some this] Some show ?thesis by auto
  qed
qed


lemma fnmatch_star: "fnmatch n ''*''"
  by (induction n) simp_all

lemma fnmatch_dot_star: "fnmatch n ''.*'' \<longleftrightarrow> n \<noteq> [] \<and> hd n = CHR ''.''"
  by (cases n) (auto simp: fnmatch_star)

lemma fnmatch_star_dot_star: "fnmatch n ''*.*'' \<longleftrightarrow> CHR ''.'' \<in> set n"
proof (induction n)
  case Nil
  show ?case by simp
next
  case (Cons c n)
  have "fnmatch (c # n) ''*.*'' \<longleftrightarrow> fnmatch (c # n) ''.*'' \<or> fnmatch n ''*.*''"
    by simp
  with Cons show ?case by (auto simp: fnmatch_dot_star)
qed

lemma glob1_star_dot_star: "glob1 fs d ''*.*'' = filter dotted (listdir fs d)"
proof -
  have "dotted = (\<lambda>x. \<not> ishidden x \<and> fnmatch x ''*.*'')"
    by (auto simp: fun_eq_iff dotted_def fnmatch_star_dot_star)
  moreover have "\<not> ishidden ''*.*''"
    by (simp add: ishidden_def)
  ultimately show ?thesis
    by (simp add: glob1_def Let_def)
qed

lemma listdir_cong: "components d = components d' \<Longrightarrow> listdir fs d = listdir fs d'"
  by (simp add: listdir_def)

lemma pattern_split:
  "d \<in> set output_dirs \<Longrightarrow>
   basename (path_join d ''*.*'') = ''*.*'' \<and> components (dirname (path_join d ''*.*'')) = components d"
  by (auto simp: output_dirs_def OUTPUT_DIR_value dir_values path_join_def basename_def
        dirname_def components_def)

lemma glob_output_dir:
  assumes "d \<in> set output_dirs"
  shows "length (glob fs (path_join d ''*.*'')) > 0 \<longleftrightarrow> list_ex dotted (listdir fs d)"
proof -
  from pattern_split [OF assms]
  have b: "basename (path_join d ''*.*'') = ''*.*''"
    and c: "components (dirname (path_join d ''*.*'')) = components d" by simp_all
  have "glob fs (path_join d ''*.*'')
        = map (path_join (dirname (path_join d ''*.*''))) (filter dotted (listdir fs d))"
    by (simp only: glob_def b glob1_star_dot_star listdir_cong [OF c])
  then show ?thesis by (auto simp: list_ex_iff filter_empty_conv)
qed


lemma lookup_prefix_dir:
  "lookup f (p @ c # cs) = Some x \<Longrightarrow> \<exists>es. lookup f p = Some (Dir es)"
  by (cases "lookup f p"; cases "the (lookup f p)") (auto simp: lookup_append)


lemma check_dir_step:
  assumes d: "d \<in> set output_dirs" and nb: "\<not> blocked f (components d)"
  shows "\<exists>f' out'. check_dir (flag, f, out) d = Inr (flag \<and> \<not> refusing f d, f', out')
     \<and> length out' = length out + (if refusing f d then 1 else 0) \<and> prefix out out'
     \<and> (\<forall>p. \<not> prefix p (components d) \<longrightarrow> lookup f' p = lookup f p)
     \<and> (\<forall>p. prefix p (components d) \<longrightarrow> (\<exists>es. lookup f' p = Some (Dir es)))"
proof (cases "isdir f d")
  case True
  then obtain es where es: "lookup f (components d) = Some (Dir es)"
    by (auto simp: isdir_def split: option.splits node.splits)
  have anc: "\<exists>es'. lookup f p = Some (Dir es')" if "prefix p (components d)" for p
  proof -
    from that obtain q where q: "components d = p @ q" by (auto simp: prefix_def)
    show ?thesis
    proof (cases q)
      case Nil
      with q es show ?thesis by simp
    next
      case (Cons c cs)
      with q es lookup_prefix_dir [of f p c cs] show ?thesis by simp
    qed
  qed
  show ?thesis
    using True anc glob_output_dir [OF d, of f]
    by (auto simp: check_dir_def refusing_def)
next
  case False
  have "lookup f (components d) \<noteq> Some File"
    using nb unfolding blocked_iff by auto
  with False have absent: "lookup f (components d) = None"
    by (auto simp: isdir_def split: option.splits node.splits)
  from mkdirs_succeeds [OF absent nb] obtain f' where f': "mkdirs f (components d) = Inr f'"
    by blast
  have frame: "lookup f' p = lookup f p" if "\<not> prefix p (components d)" for p
  proof (cases "prefix (components d) p")
    case True
    with that obtain c cs where p: "p = components d @ c # cs"
      by (cases "drop (length (components d)) p") (auto simp: prefix_def)
    from absent have "lookup f p = None" by (simp add: p lookup_append)
    with mkdirs_below [OF f', of c cs] p show ?thesis by simp
  next
    case False
    with that mkdirs_frame [OF f'] show ?thesis by simp
  qed
  show ?thesis
    using False f' frame mkdirs_prefix [OF f']
    by (auto simp: check_dir_def refusing_def makedirs_def)
qed



lemma blocked_not_dir:
  assumes "blocked f p"
  shows "lookup f p = None \<or> lookup f p = Some File"
proof -
  from assms obtain q where q: "prefix q p" "lookup f q = Some File"
    unfolding blocked_iff by blast
  then obtain r where "p = q @ r" by (auto simp: prefix_def)
  with q show ?thesis by (cases r) (simp_all add: lookup_append)
qed

lemma check_dir_blocked:
  assumes "blocked f (components d)"
  shows "\<exists>e. check_dir (flag, f, out) d = Inl e"
proof -
  from blocked_not_dir [OF assms] have "\<not> isdir f d"
    by (auto simp: isdir_def)
  moreover from mkdirs_fails [OF assms] obtain e where "makedirs f d = Inl e"
    by (auto simp: makedirs_def)
  ultimately show ?thesis by (simp add: check_dir_def)
qed

lemma check_dirs_blocked:
  assumes "set ds \<subseteq> set output_dirs"
    and "sorted_wrt (\<lambda>a b. \<not> prefix (components b) (components a)) ds"
    and "\<forall>d\<in>set ds. blocked f (components d) = blocked fs (components d)"
    and "list_ex (\<lambda>d. blocked fs (components d)) ds"
  shows "\<exists>e. check_dirs (flag, f, out) ds = Inl e"
  using assms
proof (induction ds arbitrary: flag f out)
  case Nil
  then show ?case by simp
next
  case (Cons d ds)
  show ?case
  proof (cases "blocked f (components d)")
    case True
    from check_dir_blocked [OF this, of flag out] show ?thesis by auto
  next
    case False
    from Cons.prems have d: "d \<in> set output_dirs" by simp
    from check_dir_step [OF d False, of flag out] obtain f1 out1 where
      step: "check_dir (flag, f, out) d = Inr (flag \<and> \<not> refusing f d, f1, out1)"
      and frame: "\<And>p. \<not> prefix p (components d) \<Longrightarrow> lookup f1 p = lookup f p"
      and anc: "\<And>p. prefix p (components d) \<Longrightarrow> \<exists>es. lookup f1 p = Some (Dir es)"
      by blast
    have pending: "\<forall>d'\<in>set ds. blocked f1 (components d') = blocked fs (components d')"
    proof
      fix d' assume d': "d' \<in> set ds"
      have "lookup f1 q = Some File \<longleftrightarrow> lookup f q = Some File" for q
      proof (cases "prefix q (components d)")
        case True
        with False have "lookup f q \<noteq> Some File" unfolding blocked_iff by blast
        with anc [OF True] show ?thesis by auto
      next
        case False
        with frame [of q] show ?thesis by simp
      qed
      then have "blocked f1 (components d') = blocked f (components d')"
        unfolding blocked_iff by simp
      with Cons.prems d' show "blocked f1 (components d') = blocked fs (components d')"
        by simp
    qed
    from Cons.prems False have ex: "list_ex (\<lambda>d. blocked fs (components d)) ds"
      by simp
    from Cons.prems have sub: "set ds \<subseteq> set output_dirs"
      and srt: "sorted_wrt (\<lambda>a b. \<not> prefix (components b) (components a)) ds" by simp_all
    from Cons.IH [OF sub srt pending ex, of "flag \<and> \<not> refusing f d" out1] step
    show ?thesis by simp
  qed
qed

lemma output_dirs_order:
  "sorted_wrt (\<lambda>a b. \<not> prefix (components b) (components a)) output_dirs"
  by (simp add: output_dirs_def components_values)

lemma check_files_result:
  "fold (\<lambda>file s. check_file fs s file) data_files (True, [])
   = (isfile fs DATA_TRAIN \<and> isfile fs DATA_VALID,
      map (\<lambda>file. ''[INFO] Data not found at '' @ file) (filter (\<lambda>file. \<not> isfile fs file) data_files))"
  by (simp add: data_files_def check_file_def)


lemma validate_paths_raises:
  assumes "list_ex (\<lambda>d. blocked fs (components d)) output_dirs"
  shows "\<exists>e. validate_paths fs = Inl e"
  using check_dirs_blocked [OF subset_refl output_dirs_order _ assms, of fs]
  unfolding validate_paths_def check_files_result by simp

subsection \<open>Shuffling, reshaping and labelling\<close>

lemma shuffle_from_Nil: "shuffle_from rnd i [] = []"
  by (induction i) simp_all

lemma shuffle_from_props:
  "i < length x \<Longrightarrow> mset (shuffle_from rnd i x) = mset x \<and> length (shuffle_from rnd i x) = length x"
proof (induction i arbitrary: x)
  case 0
  show ?case by simp
next
  case (Suc i)
  then have i: "Suc i < length x" by simp
  define j where "j = rnd (Suc i) mod (Suc (Suc i))"
  have "j < Suc (Suc i)" unfolding j_def by (rule mod_less_divisor) simp
  with i have j: "j < length x" by simp
  define y where "y = x[Suc i := x ! j, j := x ! Suc i]"
  have my: "mset y = mset x" unfolding y_def using i j by (simp add: mset_swap)
  have ly: "length y = length x" unfolding y_def by simp
  have "i < length y" using i ly by simp
  from Suc.IH [OF this] my ly
  have "mset (shuffle_from rnd i y) = mset x \<and> length (shuffle_from rnd i y) = length x" by simp
  then show ?case by (simp add: Let_def j_def [symmetric] y_def [symmetric])
qed

lemma shuffle_rows:
  "mset (rows (shuffle rnd m)) = mset (rows m)" "length (rows (shuffle rnd m)) = length (rows m)"
  "ncols (shuffle rnd m) = ncols m"
proof -
  have "mset (shuffle_from rnd (length (rows m) - 1) (rows m)) = mset (rows m)
      \<and> length (shuffle_from rnd (length (rows m) - 1) (rows m)) = length (rows m)"
  proof (cases "rows m")
    case Nil
    then show ?thesis by (simp add: shuffle_from_Nil)
  next
    case (Cons r rs)
    then have "length (rows m) - 1 < length (rows m)" by simp
    then show ?thesis by (rule shuffle_from_props)
  qed
  then show "mset (rows (shuffle rnd m)) = mset (rows m)"
    "length (rows (shuffle rnd m)) = length (rows m)"
    by (simp_all add: shuffle_def)
  show "ncols (shuffle rnd m) = ncols m" by (simp add: shuffle_def)
qed

lemma shuffle_set: "set (rows (shuffle rnd m)) = set (rows m)"
  using shuffle_rows(1) [of rnd m] by (metis set_mset_mset)

lemma shuffle_wf: "wf_matrix m \<Longrightarrow> wf_matrix (shuffle rnd m)"
  by (simp add: wf_matrix_def list_all_iff shuffle_set shuffle_rows)

lemma reshape_rows_concat:
  assumes "0 < n" "\<forall>r\<in>set rs. length r = n"
  shows "reshape_rows n (concat rs) = rs"
  using assms(2)
proof (induction rs rule: rev_induct)
  case Nil
  show ?case by (simp add: reshape_rows_def)
next
  case (snoc r rs)
  then have r: "length r = n" and rs: "\<forall>r\<in>set rs. length r = n" by simp_all
  have len: "length (concat rs) = length rs * n"
    using rs by (induction rs) simp_all
  have ih: "reshape_rows n (concat rs) = rs" using snoc.IH rs by simp
  have d: "length (concat (rs @ [r])) div n = Suc (length rs)"
    using assms(1) r len by simp
  have "map (\<lambda>i. take n (drop (i * n) (concat rs @ r))) [0..<length rs]
        = map (\<lambda>i. take n (drop (i * n) (concat rs))) [0..<length rs]"
  proof (rule map_cong [OF refl])
    fix i assume "i \<in> set [0..<length rs]"
    then have "Suc i \<le> length rs" by simp
    then have "Suc i * n \<le> length rs * n" by (rule mult_le_mono1)
    then have "i * n + n \<le> length (concat rs)" using len by simp
    then show "take n (drop (i * n) (concat rs @ r)) = take n (drop (i * n) (concat rs))"
      by simp
  qed
  also have "\<dots> = rs" using ih assms(1) len by (simp add: reshape_rows_def)
  finally have "map (\<lambda>i. take n (drop (i * n) (concat rs @ r))) [0..<length rs] = rs" .
  then show ?case
    using d r len by (simp add: reshape_rows_def)
qed

lemma reshape_rows_nth:
  assumes "length xs = m * n" "i < m" "j < n"
  shows "reshape_rows n xs ! i ! j = xs ! (i * n + j)" and "length (reshape_rows n xs) = m"
    and "length (reshape_rows n xs ! i) = n"
proof -
  from assms have n: "0 < n" by simp
  then have d: "length xs div n = m" using assms(1) by simp
  have "Suc i * n \<le> m * n" using assms(2) by (intro mult_le_mono1) simp
  then have b: "i * n + n \<le> length xs" using assms(1) by simp
  show "length (reshape_rows n xs) = m" by (simp add: reshape_rows_def d)
  show "reshape_rows n xs ! i ! j = xs ! (i * n + j)"
    using assms b by (simp add: reshape_rows_def d)
  show "length (reshape_rows n xs ! i) = n"
    using assms b by (simp add: reshape_rows_def d)
qed


lemma length_concat_const:
  "\<forall>r\<in>set rs. length r = n \<Longrightarrow> length (concat rs) = length rs * n"
  by (induction rs) simp_all

lemma images_direct_dataset:
  assumes "wf_matrix m" "ncols m = 1 + 104 * 104 * 3"
  shows "images_direct m = Inr (map row_image (rows m))"
proof -
  have len: "\<forall>r\<in>set (columns_from1 m). length r = 32448"
    using assms by (auto simp: columns_from1_def wf_matrix_def list_all_iff)
  then have total: "length (concat (columns_from1 m)) = length (columns_from1 m) * 32448"
    by (rule length_concat_const)
  have chunked: "reshape_rows 32448 (concat (columns_from1 m)) = columns_from1 m"
    using len by (intro reshape_rows_concat) simp_all
  have "reshape_images INPUT_DSHAPE (concat (columns_from1 m))
        = Inr (map (\<lambda>v. map (reshape_rows 3) (reshape_rows (104 * 3) v)) (columns_from1 m))"
    using total chunked by (simp add: reshape_images_def INPUT_DSHAPE_def)
  then show ?thesis
    by (simp add: images_direct_def and_then_def scale255_def row_image_def columns_from1_def)
qed

lemma labels_dataset:
  assumes "0 < ncols m" "rows m \<noteq> []" "list_all (\<lambda>r. 0 \<le> hd r) (rows m)"
  shows "labels m = Inr (map (row_label (num_classes m)) (rows m))"
proof -
  define y where "y = map hd (rows m)"
  have ne: "y \<noteq> []" using assms(2) by (simp add: y_def)
  have nonneg: "\<forall>v\<in>set y. 0 \<le> v"
    using assms(3) by (auto simp: y_def list_all_iff)
  have "hd y \<in> set y" using ne by simp
  then have "0 \<le> hd y" "hd y \<le> Max (set y)" using nonneg by simp_all
  then have "0 \<le> Max (set y)" by simp
  then have nc: "\<not> Max (set y) + 1 < 0" by simp
  have noidx: "\<not> list_ex (\<lambda>v. v < - (Max (set y) + 1)) y"
    using nonneg \<open>0 \<le> Max (set y)\<close> by (auto simp: list_ex_iff)
  have "map (\<lambda>v. one_hot (nat (Max (set y) + 1)) (nat (if v < 0 then v + (Max (set y) + 1) else v))) y
        = map (\<lambda>v. one_hot (nat (Max (set y) + 1)) (nat v)) y"
    using nonneg by (intro map_cong) auto
  then have "to_categorical y = Inr (map (\<lambda>v. one_hot (nat (Max (set y) + 1)) (nat v)) y)"
    using ne nc noidx by (simp only: to_categorical_def Let_def if_False)
  then show ?thesis
    using assms(1)
    by (simp add: labels_def column0_def and_then_def y_def num_classes_def row_label_def comp_def)
qed

lemma arrays_dataset:
  assumes "dataset data_train" "dataset data_valid"
  shows "arrays resize data_train data_valid
     = Inr ((map row_image (rows data_train), map (row_label (num_classes data_train)) (rows data_train)),
            (map row_image (rows data_valid), map (row_label (num_classes data_valid)) (rows data_valid)))"
proof -
  from assms have
    xt: "images_direct data_train = Inr (map row_image (rows data_train))" and
    xv: "images_direct data_valid = Inr (map row_image (rows data_valid))"
    by (simp_all add: dataset_def images_direct_dataset)
  from assms have
    yt: "labels data_train = Inr (map (row_label (num_classes data_train)) (rows data_train))" and
    yv: "labels data_valid = Inr (map (row_label (num_classes data_valid)) (rows data_valid))"
    by (simp_all add: dataset_def labels_dataset)
  show ?thesis
    by (simp add: arrays_def IMAGE_SIZE_def INPUT_DSHAPE_def xt xv yt yv and_then_def)
qed

lemma shuffle_dataset: "dataset m \<Longrightarrow> dataset (shuffle rnd m)"
  using shuffle_wf [of m rnd] shuffle_set [of rnd m] shuffle_rows(2,3) [of rnd m]
  by (auto simp: dataset_def list_all_iff)

lemma shuffle_num_classes: "num_classes (shuffle rnd m) = num_classes m"
  by (simp add: num_classes_def shuffle_set)

lemma row_image_nth:
  assumes "length r = 1 + 104 * 104 * 3" "i < 104" "j < 104" "k < 3"
  shows "row_image r ! i ! j ! k = real_of_int (r ! (1 + (i * 104 + j) * 3 + k)) / 255"
    and "length (row_image r) = 104" and "length (row_image r ! i) = 104"
    and "length (row_image r ! i ! j) = 3"
proof -
  define v where "v = drop 1 r"
  have lv: "length v = 104 * (104 * 3)" using assms(1) by (simp add: v_def)
  note a = reshape_rows_nth [OF lv assms(2)]
  have lrow: "length (reshape_rows (104 * 3) v ! i) = 104 * 3"
    using a(3) [of 0] by simp
  have n1: "length (reshape_rows (104 * 3) v) = 104" using a(2) [of 0] by simp
  note b = reshape_rows_nth [OF lrow assms(3)]
  have idx: "(j * 3 + k) < 104 * 3" using assms(3,4) by simp
  have e1: "reshape_rows 3 (reshape_rows (104 * 3) v ! i) ! j ! k
            = reshape_rows (104 * 3) v ! i ! (j * 3 + k)"
    using b(1) [OF assms(4)] .
  have e2: "reshape_rows (104 * 3) v ! i ! (j * 3 + k) = v ! (i * (104 * 3) + (j * 3 + k))"
    using a(1) [OF idx] .
  have e3: "v ! (i * (104 * 3) + (j * 3 + k)) = r ! (1 + (i * 104 + j) * 3 + k)"
  proof -
    have "i * (104 * 3) + (j * 3 + k) < length v" using lv assms(2,3,4) by simp
    then have "v ! (i * (104 * 3) + (j * 3 + k)) = r ! (1 + (i * (104 * 3) + (j * 3 + k)))"
      unfolding v_def by simp
    moreover have "1 + (i * (104 * 3) + (j * 3 + k)) = 1 + (i * 104 + j) * 3 + k"
      by (simp add: algebra_simps)
    ultimately show ?thesis by (simp only:)
  qed
  have l2: "length (reshape_rows 3 (reshape_rows (104 * 3) v ! i)) = 104"
    using b(2) [of 0] by simp
  have l3: "length (reshape_rows 3 (reshape_rows (104 * 3) v ! i) ! j) = 3"
    using b(3) [of 0] by simp
  define w where "w = reshape_rows (104 * 3) v"
  have ri: "row_image r = map (map (map (\<lambda>v. real_of_int v / 255))) (map (reshape_rows 3) w)"
    unfolding row_image_def w_def v_def ..
  have n1': "length w = 104" using n1 by (simp add: w_def)
  have l2': "length (reshape_rows 3 (w ! i)) = 104" using l2 by (simp add: w_def)
  have l3': "length (reshape_rows 3 (w ! i) ! j) = 3" using l3 by (simp add: w_def)
  have el: "reshape_rows 3 (w ! i) ! j ! k = r ! (1 + (i * 104 + j) * 3 + k)"
    using e1 e2 e3 by (simp only: w_def)
  show "length (row_image r) = 104"
    unfolding ri using n1' by simp
  have at_i: "row_image r ! i = map (map (\<lambda>v. real_of_int v / 255)) (reshape_rows 3 (w ! i))"
    unfolding ri using n1' assms(2) by simp
  show "length (row_image r ! i) = 104"
    unfolding at_i using l2' by simp
  have at_j: "row_image r ! i ! j = map (\<lambda>v. real_of_int v / 255) (reshape_rows 3 (w ! i) ! j)"
    unfolding at_i using l2' assms(3) by simp
  show "length (row_image r ! i ! j) = 3"
    unfolding at_j using l3' by simp
  show "row_image r ! i ! j ! k = real_of_int (r ! (1 + (i * 104 + j) * 3 + k)) / 255"
    unfolding at_j using l3' assms(4) el by simp
qed

lemma row_label_nth:
  "c < n \<Longrightarrow> row_label n r ! c = (if int c = hd r then 1 else 0)" if "0 \<le> hd r"
  using that by (auto simp: row_label_def one_hot_def)

subsection \<open>The learning-rate schedule decays\<close>

lemma schedule_pos: "0 < schedule e"
  by (simp add: schedule_def LEARN_RATE_def DECAY_RATE_def)

lemma schedule_Suc: "schedule (Suc e) = schedule e * (9 / 10)"
  by (simp add: schedule_def DECAY_RATE_def)

lemma schedule_step: "schedule (Suc e) < schedule e"
proof -
  have "schedule e * (9 / 10) < schedule e * 1"
    using schedule_pos [of e] by (intro mult_strict_left_mono) simp_all
  then show ?thesis by (simp add: schedule_Suc)
qed

lemma schedule_add: "schedule (Suc (e + k)) < schedule e"
proof (induction k)
  case 0
  show ?case using schedule_step [of e] by simp
next
  case (Suc k)
  have "schedule (Suc (e + Suc k)) < schedule (Suc (e + k))"
    using schedule_step [of "Suc (e + k)"] by simp
  with Suc show ?case by linarith
qed

text \<open>
  C4. The schedule of the learning-rate callback maps epoch \<open>e\<close> to
  \<open>LEARN_RATE * DECAY_RATE ^ e = 0.001 * 0.9 ^ e\<close>; it starts at the initial learning
  rate 0.001 and is strictly decreasing: a later epoch always gets a smaller rate.
\<close>

theorem schedule_decay:
  "schedule e = (1 / 1000) * (9 / 10) ^ e
   \<and> schedule 0 = LEARN_RATE \<and> LEARN_RATE = 1 / 1000
   \<and> (e1 < e2 \<longrightarrow> schedule e2 < schedule e1)"
proof -
  have "schedule e2 < schedule e1" if "e1 < e2"
  proof -
    from that obtain k where "e2 = Suc (e1 + k)"
      using less_iff_Suc_add by auto
    then show ?thesis using schedule_add [of e1 k] by simp
  qed
  then show ?thesis
    by (simp add: schedule_def LEARN_RATE_def DECAY_RATE_def)
qed

theorem schedule_decay_witness:
  "(3::nat) < 7 \<and> schedule 7 < schedule 3 \<and> schedule 0 = 1 / 1000"
  using schedule_decay [of 0 3 7] by simp

subsection \<open>The margin loss computes the stated formula and is non-negative\<close>

lemma sum_list_map2_nth:
  "length r = length s \<Longrightarrow> sum_list (map2 f r s) = (\<Sum>j<length r. f (r ! j) (s ! j))"
proof -
  assume len: "length r = length s"
  have "map2 f r s = map (\<lambda>j. f (r ! j) (s ! j)) [0..<length r]"
    using len by (intro nth_equalityI) simp_all
  then have "sum_list (map2 f r s) = sum_list (map (\<lambda>j. f (r ! j) (s ! j)) [0..<length r])"
    by simp
  also have "\<dots> = (\<Sum>j<length r. f (r ! j) (s ! j))"
    by (simp add: interv_sum_list_conv_sum_set_nat atLeast0LessThan)
  finally show ?thesis .
qed

lemma loss_row:
  "length r = length s \<Longrightarrow>
   map2 (+) (map2 (*) r (map (\<lambda>v. v * v) (map (max 0) (map (\<lambda>v. 9 / 10 - v) s))))
     (map2 (*) (map (\<lambda>v. 1 / 2 * v) (map (\<lambda>v. 1 - v) r))
        (map (\<lambda>v. v * v) (map (max 0) (map (\<lambda>v. v - 1 / 10) s))))
   = map2 margin_term r s"
  by (induction r s rule: list_induct2) (simp_all add: margin_term_def power2_eq_square)

lemma same_shape_cases:
  "map length (x # a) = map length b \<Longrightarrow> \<exists>y b'. b = y # b' \<and> length x = length y \<and> map length a = map length b'"
  by (cases b) auto

lemma loss_tensor:
  "map length y_true = map length y_pred \<Longrightarrow>
   map2 (map2 (+))
     (map2 (map2 (*)) y_true (square (maximum 0 (scalar_minus (9 / 10) y_pred))))
     (map2 (map2 (*)) (scalar_times (1 / 2) (scalar_minus 1 y_true))
        (square (maximum 0 (minus_scalar y_pred (1 / 10)))))
   = map2 (map2 margin_term) y_true y_pred"
proof (induction y_true arbitrary: y_pred)
  case Nil
  then show ?case by simp
next
  case (Cons x a)
  then obtain y b' where b: "y_pred = y # b'" "length x = length y" "map length a = map length b'"
    using same_shape_cases by blast
  show ?case using Cons.IH [OF b(3)] loss_row [OF b(2)]
    by (simp add: b square_def maximum_def scalar_minus_def minus_scalar_def scalar_times_def)
qed

lemma shape_map2:
  "map length a = map length b \<Longrightarrow> map length (map2 (map2 f) a b) = map length a"
proof (induction a arbitrary: b)
  case Nil
  then show ?case by simp
next
  case (Cons x a)
  then obtain y b' where "b = y # b'" "length x = length y" "map length a = map length b'"
    using same_shape_cases by blast
  with Cons.IH [of b'] show ?case by simp
qed

lemma shape_unary: "map length (map (map f) t) = map length t"
  by (induction t) simp_all

lemma sequence_map_Inr:
  "(\<And>x. x \<in> set xs \<Longrightarrow> g x = Inr (h x)) \<Longrightarrow> sequence (map g xs) = Inr (map h xs)"
  by (induction xs) (simp_all add: and_then_def)

lemma same_shape_zip:
  assumes "map length a = map length b" and "rs \<in> set (zip a b)"
  shows "length (fst rs) = length (snd rs)"
proof -
  obtain i where i: "i < length a" "i < length b" "rs = (a ! i, b ! i)"
    using assms(2) by (auto simp: in_set_zip)
  have "map length a ! i = map length b ! i"
    using assms(1) by simp
  then show ?thesis using i by simp
qed

lemma elementwise_same_shape:
  assumes "map length a = map length b"
  shows "elementwise f a b = Inr (map2 (map2 f) a b)"
proof -
  have len: "length a = length b"
    using assms by (metis length_map)
  have row: "elementwise_row f rs = Inr (case rs of (r, s) \<Rightarrow> map2 f r s)" if "rs \<in> set (zip a b)" for rs
    using same_shape_zip [OF assms that]
    by (simp add: elementwise_row_def broadcast_def and_then_def case_prod_beta)
  have "elementwise f a b = sequence (map (elementwise_row f) (zip a b))"
    using len by (simp add: elementwise_def broadcast_def and_then_def)
  also have "\<dots> = Inr (map (\<lambda>rs. case rs of (r, s) \<Rightarrow> map2 f r s) (zip a b))"
    using row by (rule sequence_map_Inr)
  finally show ?thesis .
qed

lemma broadcast_set:
  "broadcast a b = Inr ps \<Longrightarrow> p \<in> set ps \<Longrightarrow> fst p \<in> set a \<and> snd p \<in> set b"
  by (cases p) (auto simp: broadcast_def length_Suc_conv split: if_splits
        dest: set_zip_leftD set_zip_rightD)

lemma sequence_set:
  "sequence rs = Inr vs \<Longrightarrow> v \<in> set vs \<Longrightarrow> Inr v \<in> set rs"
proof (induction rs arbitrary: vs)
  case Nil
  then show ?case by simp
next
  case (Cons r rs)
  then show ?case
    by (auto simp: and_then_def split: sum.splits)
qed

lemma elementwise_entries:
  assumes "elementwise f a b = Inr c" and "row \<in> set c" and "v \<in> set row"
  shows "\<exists>r \<in> set a. \<exists>s \<in> set b. \<exists>x \<in> set r. \<exists>y \<in> set s. v = f x y"
proof -
  obtain pairs where pairs: "broadcast a b = Inr pairs" "sequence (map (elementwise_row f) pairs) = Inr c"
    using assms(1) by (auto simp: elementwise_def and_then_def split: sum.splits)
  have "Inr row \<in> set (map (elementwise_row f) pairs)"
    using pairs(2) assms(2) by (rule sequence_set)
  then obtain rs where rs: "rs \<in> set pairs" "elementwise_row f rs = Inr row"
    by auto
  obtain ps where ps: "broadcast (fst rs) (snd rs) = Inr ps" "row = map (\<lambda>p. f (fst p) (snd p)) ps"
    using rs(2) by (auto simp: elementwise_row_def and_then_def split: sum.splits)
  obtain p where p: "p \<in> set ps" "v = f (fst p) (snd p)"
    using assms(3) ps(2) by auto
  have "fst rs \<in> set a" "snd rs \<in> set b"
    using broadcast_set [OF pairs(1) rs(1)] by simp_all
  moreover have "fst p \<in> set (fst rs)" "snd p \<in> set (snd rs)"
    using broadcast_set [OF ps(1) p(1)] by simp_all
  ultimately show ?thesis using p(2) by blast
qed

lemma margin_loss_value_nonneg:
  assumes range01: "\<And>row t. row \<in> set y_true \<Longrightarrow> t \<in> set row \<Longrightarrow> 0 \<le> t \<and> t \<le> 1"
    and returned: "margin_loss y_true y_pred = Inr v"
  shows "0 \<le> v"
proof -
  define p where "p = square (maximum 0 (scalar_minus (9 / 10) y_pred))"
  define n where "n = square (maximum 0 (minus_scalar y_pred (1 / 10)))"
  define w where "w = scalar_times (1 / 2) (scalar_minus 1 y_true)"
  have "margin_loss y_true y_pred
        = and_then (elementwise (*) y_true p) (\<lambda>pos.
          and_then (elementwise (*) w n) (\<lambda>neg.
          and_then (elementwise (+) pos neg) (\<lambda>loss. mean (sum_axis1 loss))))"
    by (simp only: margin_loss_def p_def n_def w_def)
  with returned obtain pos neg loss where
    pos: "elementwise (*) y_true p = Inr pos" and
    neg: "elementwise (*) w n = Inr neg" and
    loss: "elementwise (+) pos neg = Inr loss" and
    v: "mean (sum_axis1 loss) = Inr v"
    by (auto simp: and_then_def split: sum.splits)
  have p0: "0 \<le> x" if "row \<in> set p" "x \<in> set row" for row x
    using that by (auto simp: p_def square_def)
  have n0: "0 \<le> x" if "row \<in> set n" "x \<in> set row" for row x
    using that by (auto simp: n_def square_def)
  have w0: "0 \<le> x" if "row \<in> set w" "x \<in> set row" for row x
    using that range01 by (auto simp: w_def scalar_times_def scalar_minus_def)
  have pos0: "0 \<le> x" if entry: "row \<in> set pos" "x \<in> set row" for row x
  proof -
    obtain r s t q where "r \<in> set y_true" "s \<in> set p" "t \<in> set r" "q \<in> set s" "x = t * q"
      using elementwise_entries [OF pos entry] by blast
    then show ?thesis using range01 p0 by simp
  qed
  have neg0: "0 \<le> x" if entry: "row \<in> set neg" "x \<in> set row" for row x
  proof -
    obtain r s t q where "r \<in> set w" "s \<in> set n" "t \<in> set r" "q \<in> set s" "x = t * q"
      using elementwise_entries [OF neg entry] by blast
    then show ?thesis using w0 n0 by simp
  qed
  have loss0: "0 \<le> x" if entry: "row \<in> set loss" "x \<in> set row" for row x
  proof -
    obtain r s t q where "r \<in> set pos" "s \<in> set neg" "t \<in> set r" "q \<in> set s" "x = t + q"
      using elementwise_entries [OF loss entry] by blast
    then show ?thesis using pos0 neg0 by (simp add: add_nonneg_nonneg)
  qed
  have "0 \<le> sum_list (sum_axis1 loss)"
    unfolding sum_axis1_def
    by (intro sum_list_nonneg) (auto intro!: sum_list_nonneg loss0)
  moreover have "v = sum_list (sum_axis1 loss) / real (length (sum_axis1 loss))"
    using v by (simp add: mean_def split: if_splits)
  ultimately show ?thesis by simp
qed

lemma margin_loss_rows:
  assumes "map length y_true = map length y_pred"
  shows "margin_loss y_true y_pred
         = mean (map2 (\<lambda>r s. sum_list (map2 margin_term r s)) y_true y_pred)"
proof -
  define p where "p = square (maximum 0 (scalar_minus (9 / 10) y_pred))"
  define n where "n = square (maximum 0 (minus_scalar y_pred (1 / 10)))"
  define w where "w = scalar_times (1 / 2) (scalar_minus 1 y_true)"
  have sp: "map length p = map length y_pred"
    by (simp only: p_def square_def maximum_def scalar_minus_def shape_unary)
  have sn: "map length n = map length y_pred"
    by (simp only: n_def square_def maximum_def minus_scalar_def shape_unary)
  have sw: "map length w = map length y_true"
    by (simp only: w_def scalar_times_def scalar_minus_def shape_unary)
  have e1: "elementwise (*) y_true p = Inr (map2 (map2 (*)) y_true p)"
    using assms sp by (intro elementwise_same_shape) simp
  have e2: "elementwise (*) w n = Inr (map2 (map2 (*)) w n)"
    using assms sn sw by (intro elementwise_same_shape) simp
  have "map length (map2 (map2 (*)) y_true p) = map length y_true"
    using assms sp by (intro shape_map2) simp
  moreover have "map length (map2 (map2 (*)) w n) = map length w"
    using assms sn sw by (intro shape_map2) simp
  ultimately have "map length (map2 (map2 (*)) y_true p) = map length (map2 (map2 (*)) w n)"
    using sw by (simp only:)
  then have e3: "elementwise (+) (map2 (map2 (*)) y_true p) (map2 (map2 (*)) w n)
      = Inr (map2 (map2 (+)) (map2 (map2 (*)) y_true p) (map2 (map2 (*)) w n))"
    by (rule elementwise_same_shape)
  have loss: "map2 (map2 (+)) (map2 (map2 (*)) y_true p) (map2 (map2 (*)) w n)
      = map2 (map2 margin_term) y_true y_pred"
    unfolding p_def n_def w_def using assms by (rule loss_tensor)
  have rows: "sum_axis1 (map2 (map2 margin_term) y_true y_pred)
        = map2 (\<lambda>r s. sum_list (map2 margin_term r s)) y_true y_pred"
    by (auto simp: sum_axis1_def)
  have "margin_loss y_true y_pred
        = and_then (elementwise (*) y_true p) (\<lambda>pos.
          and_then (elementwise (*) w n) (\<lambda>neg.
          and_then (elementwise (+) pos neg) (\<lambda>loss. mean (sum_axis1 loss))))"
    by (simp only: margin_loss_def p_def n_def w_def)
  also have "\<dots> = mean (sum_axis1 (map2 (map2 margin_term) y_true y_pred))"
    by (simp only: e1 e2 e3 loss and_then_def sum.case)
  finally show ?thesis by (simp only: rows)
qed

lemma margin_loss_spec_rows:
  assumes "map length y_true = map length y_pred"
  shows "sum_list (map2 (\<lambda>r s. sum_list (map2 margin_term r s)) y_true y_pred)
         = (\<Sum>i<length y_true. \<Sum>j<length (y_true ! i). margin_term (y_true ! i ! j) (y_pred ! i ! j))"
proof -
  have len: "length y_true = length y_pred"
    using assms by (metis length_map)
  have row: "length (y_true ! i) = length (y_pred ! i)" if "i < length y_true" for i
    using assms that len by (metis nth_map)
  have "sum_list (map2 (\<lambda>r s. sum_list (map2 margin_term r s)) y_true y_pred)
        = (\<Sum>i<length y_true. sum_list (map2 margin_term (y_true ! i) (y_pred ! i)))"
    using len by (rule sum_list_map2_nth)
  also have "\<dots> = (\<Sum>i<length y_true. \<Sum>j<length (y_true ! i). margin_term (y_true ! i ! j) (y_pred ! i ! j))"
    by (intro sum.cong refl sum_list_map2_nth row) simp
  finally show ?thesis .
qed

text \<open>
  C3. For labels \<open>y_true\<close> and predictions \<open>y_pred\<close> of the same shape (and at
  least one sample, so that the mean exists), \<open>margin_loss\<close> returns exactly the mean
  over the samples of the sum over the classes of
  \<open>y_true * max(0, 0.9 - y_pred)\<^sup>2 + 0.5 * (1 - y_true) * max(0, y_pred - 0.1)\<^sup>2\<close>.
\<close>

theorem margin_loss_formula:
  assumes "map length y_true = map length y_pred" and "y_true \<noteq> []"
  shows "margin_loss y_true y_pred = Inr (margin_loss_spec y_true y_pred)"
proof -
  have len: "length y_true = length y_pred"
    using assms(1) by (metis length_map)
  have ne: "y_pred \<noteq> []"
    using assms(2) len by auto
  show ?thesis
    using assms(2) len ne
    by (simp add: margin_loss_rows [OF assms(1)] mean_def margin_loss_spec_def
          margin_loss_spec_rows [OF assms(1)])
qed

theorem margin_loss_formula_witness:
  "margin_loss [[1, 0], [0, 1]] [[8 / 10, 3 / 10], [1 / 10, 1]] = Inr (3 / 200)"
  using margin_loss_formula [of "[[1, 0], [0, 1]]" "[[8 / 10, 3 / 10], [1 / 10, 1]]"]
  by (simp add: margin_loss_spec_def margin_term_def lessThan_Suc power2_eq_square)

lemma margin_term_nonneg: "0 \<le> t \<Longrightarrow> t \<le> 1 \<Longrightarrow> 0 \<le> margin_term t p"
  by (simp add: margin_term_def)

text \<open>
  C10. The claim reads: for one-hot (or \<open>[0, 1]\<close>-valued) labels and every prediction the
  margin loss is at least 0. On a batch without samples no value is returned at all: the
  mean of no numbers is not a number.
\<close>

theorem margin_loss_empty_batch:
  "margin_loss [] [] = Inl Not_a_number"
  by (simp add: margin_loss_def elementwise_def broadcast_def and_then_def mean_def sum_axis1_def
        square_def maximum_def scalar_minus_def minus_scalar_def scalar_times_def)

text \<open>
  C10, amended. For labels with entries in \<open>[0, 1]\<close> (one-hot labels in particular) and
  predictions whose entries are real numbers, every value that \<open>margin_loss\<close> returns is
  at least 0, whatever the two shapes; and for predictions of the shape of the labels with
  at least one sample a value is returned.
\<close>

theorem margin_loss_nonneg:
  assumes "\<forall>row \<in> set y_true. \<forall>t \<in> set row. 0 \<le> t \<and> t \<le> 1"
  shows "(\<forall>v. margin_loss y_true y_pred = Inr v \<longrightarrow> 0 \<le> v) \<and>
         (map length y_true = map length y_pred \<and> y_true \<noteq> [] \<longrightarrow>
            (\<exists>v. margin_loss y_true y_pred = Inr v))"
proof (intro conjI allI impI)
  fix v
  assume "margin_loss y_true y_pred = Inr v"
  with assms show "0 \<le> v"
    by (intro margin_loss_value_nonneg [of y_true y_pred v]) auto
next
  assume shape: "map length y_true = map length y_pred \<and> y_true \<noteq> []"
  then have "length y_true = length y_pred"
    by (metis length_map)
  with shape have "y_pred \<noteq> []"
    by auto
  with shape show "\<exists>v. margin_loss y_true y_pred = Inr v"
    by (simp add: margin_loss_rows mean_def)
qed

theorem margin_loss_nonneg_witness:
  "(\<exists>v. margin_loss [[1, 0], [0, 1]] [[8 / 10, 3 / 10], [-2, 5]] = Inr v \<and> 0 \<le> v) \<and>
   margin_loss [[1, 0]] [[8 / 10, 3 / 10], [1 / 10, 1]] = Inr (43 / 80)"
proof -
  have same: "(\<forall>v. margin_loss [[1, 0], [0, 1]] [[8 / 10, 3 / 10], [-2, 5]] = Inr v \<longrightarrow> 0 \<le> v) \<and>
      (\<exists>v. margin_loss [[1, 0], [0, 1]] [[8 / 10, 3 / 10], [-2, 5]] = Inr v)"
    using margin_loss_nonneg [of "[[1, 0], [0, 1]]" "[[8 / 10, 3 / 10], [-2, 5]]"] by simp
  have broadcast: "margin_loss [[1, 0]] [[8 / 10, 3 / 10], [1 / 10, 1]] = Inr (43 / 80)"
    by (simp add: margin_loss_def elementwise_def elementwise_row_def broadcast_def and_then_def
          mean_def sum_axis1_def square_def maximum_def scalar_minus_def minus_scalar_def
          scalar_times_def)
  from same broadcast show ?thesis by blast
qed

subsection \<open>The arrays that are loaded\<close>

lemma load_data_dataset:
  assumes "loadmat env DATA_TRAIN = Inr dt" "loadmat env DATA_VALID = Inr dv"
    and "dataset dt" "dataset dv"
  shows "load_data env
     = Inr ((map row_image (rows (shuffle (rnd_train env) dt)),
             map (row_label (num_classes dt)) (rows (shuffle (rnd_train env) dt))),
            (map row_image (rows (shuffle (rnd_valid env) dv)),
             map (row_label (num_classes dv)) (rows (shuffle (rnd_valid env) dv))))"
  using arrays_dataset [OF shuffle_dataset [OF assms(3)] shuffle_dataset [OF assms(4)]]
  by (simp add: load_data_def and_then_def assms(1,2) shuffle_num_classes)

lemma row_image_is_image: "length r = 1 + 104 * 104 * 3 \<Longrightarrow> is_image_of (row_image r) r"
proof -
  assume len: "length r = 1 + 104 * 104 * 3"
  have "length (row_image r) = 104"
    using row_image_nth(2) [OF len, of 0 0 0] by simp
  moreover have "length (row_image r ! i) = 104" if "i < 104" for i
    using row_image_nth(3) [OF len that, of 0 0] by simp
  moreover have "length (row_image r ! i ! j) = 3" if "i < 104" "j < 104" for i j
    using row_image_nth(4) [OF len that, of 0] by simp
  moreover have "row_image r ! i ! j ! k = real_of_int (r ! (1 + (i * 104 + j) * 3 + k)) / 255"
    if "i < 104" "j < 104" "k < 3" for i j k
    using row_image_nth(1) [OF len that] .
  ultimately show ?thesis
    unfolding is_image_of_def by blast
qed

lemma num_classes_bound:
  assumes "rows m \<noteq> []" "r \<in> set (rows m)" "0 \<le> hd r"
  shows "hd r < int (num_classes m)"
proof -
  have "hd r \<in> set (map hd (rows m))" using assms(2) by simp
  then have "hd r \<le> Max (set (map hd (rows m)))" by (intro Max_ge) simp_all
  with assms(3) show ?thesis by (simp add: num_classes_def)
qed

lemma row_label_is_one_hot:
  assumes "rows m \<noteq> []" "r \<in> set (rows m)" "0 \<le> hd r"
  shows "is_one_hot_of (row_label (num_classes m) r) (hd r) (num_classes m)"
  using num_classes_bound [OF assms] assms(3)
  by (auto simp: is_one_hot_of_def row_label_def one_hot_def)

lemma dataset_rows:
  assumes "dataset m" "r \<in> set (rows (shuffle rnd m))"
  shows "length r = 1 + 104 * 104 * 3" "is_image_of (row_image r) r"
    "is_one_hot_of (row_label (num_classes m) r) (hd r) (num_classes m)"
proof -
  from assms have r: "r \<in> set (rows m)" by (simp add: shuffle_set)
  with assms(1) show len: "length r = 1 + 104 * 104 * 3"
    by (auto simp: dataset_def wf_matrix_def list_all_iff)
  then show "is_image_of (row_image r) r" by (rule row_image_is_image)
  from assms(1) r have "rows m \<noteq> []" "0 \<le> hd r"
    by (auto simp: dataset_def list_all_iff)
  then show "is_one_hot_of (row_label (num_classes m) r) (hd r) (num_classes m)"
    using r by (intro row_label_is_one_hot)
qed

text \<open>
  C2. \<^verbatim>\<open>load_data\<close> takes the first column of every row as the class label and the other
  columns as the intensities of an image: for matrices that are datasets it returns, for
  both splits, \<open>x\<close> with the image of shape \<open>(104, 104, 3)\<close> of every row of the shuffled
  matrix, its entries divided by 255, and \<open>y\<close> with the one-hot vector of the first entry
  of every row.
\<close>

theorem load_data_arrays:
  assumes "loadmat env DATA_TRAIN = Inr dt" "loadmat env DATA_VALID = Inr dv"
    and "dataset dt" "dataset dv"
  shows "\<exists>x_train y_train x_valid y_valid.
     load_data env = Inr ((x_train, y_train), (x_valid, y_valid))
     \<and> list_all2 is_image_of x_train (rows (shuffle (rnd_train env) dt))
     \<and> list_all2 (\<lambda>y r. is_one_hot_of y (hd r) (num_classes dt)) y_train (rows (shuffle (rnd_train env) dt))
     \<and> list_all2 is_image_of x_valid (rows (shuffle (rnd_valid env) dv))
     \<and> list_all2 (\<lambda>y r. is_one_hot_of y (hd r) (num_classes dv)) y_valid (rows (shuffle (rnd_valid env) dv))"
proof -
  have "list_all2 is_image_of (map row_image (rows (shuffle rnd m))) (rows (shuffle rnd m))
      \<and> list_all2 (\<lambda>y r. is_one_hot_of y (hd r) (num_classes m))
          (map (row_label (num_classes m)) (rows (shuffle rnd m))) (rows (shuffle rnd m))"
    if "dataset m" for m rnd
    using dataset_rows [OF that, of _ rnd]
    by (simp add: list_all2_map1 list_all2_same)
  from this [OF assms(3), of "rnd_train env"] this [OF assms(4), of "rnd_valid env"]
  show ?thesis
    unfolding load_data_dataset [OF assms] by blast
qed

text \<open>
  C9. Shuffling keeps the image and the label of a row together: the rows of each matrix
  are rearranged as a whole, and both returned arrays of a split follow the rearranged
  rows, so the entry \<open>i\<close> of \<open>y\<close> is the one-hot label of the row whose intensities are
  the entry \<open>i\<close> of \<open>x\<close>.
\<close>

theorem load_data_pairing:
  assumes "loadmat env DATA_TRAIN = Inr dt" "loadmat env DATA_VALID = Inr dv"
    and "dataset dt" "dataset dv"
  shows "\<exists>s_train s_valid.
     mset s_train = mset (rows dt) \<and> mset s_valid = mset (rows dv)
     \<and> load_data env
       = Inr ((map row_image s_train, map (row_label (num_classes dt)) s_train),
              (map row_image s_valid, map (row_label (num_classes dv)) s_valid))"
  using load_data_dataset [OF assms] shuffle_rows(1) [of "rnd_train env" dt]
    shuffle_rows(1) [of "rnd_valid env" dv]
  by blast


lemma sample_row_props:
  "length (sample_row l v) = 1 + 104 * 104 * 3" "hd (sample_row l v) = l"
  by (simp_all add: sample_row_def)

lemma sample_dataset:
  "list_all (\<lambda>l. 0 \<le> l) ls \<Longrightarrow> ls \<noteq> [] \<Longrightarrow> dataset (sample_matrix (map (\<lambda>l. sample_row l v) ls))"
  by (simp add: dataset_def sample_matrix_def wf_matrix_def list_all_iff sample_row_props)

lemma env_sample_loadmat:
  "loadmat env_sample DATA_TRAIN = Inr (sample_matrix [sample_row 2 255, sample_row 0 51])"
  "loadmat env_sample DATA_VALID = Inr (sample_matrix [sample_row 1 0])"
  by (simp_all add: env_sample_def DATA_TRAIN_def DATA_VALID_def)

lemma sample_datasets:
  "dataset (sample_matrix [sample_row 2 255, sample_row 0 51])"
  "dataset (sample_matrix [sample_row 1 0])"
  by (simp_all add: dataset_def sample_matrix_def wf_matrix_def sample_row_props)

theorem load_data_arrays_witness:
  "\<exists>x_train y_train x_valid y_valid.
     load_data env_sample = Inr ((x_train, y_train), (x_valid, y_valid))
     \<and> list_all2 is_image_of x_train [sample_row 0 51, sample_row 2 255]
     \<and> list_all2 (\<lambda>y r. is_one_hot_of y (hd r) 3) y_train [sample_row 0 51, sample_row 2 255]
     \<and> list_all2 is_image_of x_valid [sample_row 1 0]
     \<and> list_all2 (\<lambda>y r. is_one_hot_of y (hd r) 2) y_valid [sample_row 1 0]"
proof -
  have st: "rows (shuffle (rnd_train env_sample) (sample_matrix [sample_row 2 255, sample_row 0 51]))
      = [sample_row 0 51, sample_row 2 255]"
    by (simp add: shuffle_def sample_matrix_def env_sample_def)
  have sv: "rows (shuffle (rnd_valid env_sample) (sample_matrix [sample_row 1 0])) = [sample_row 1 0]"
    by (simp add: shuffle_def sample_matrix_def env_sample_def)
  have nt: "num_classes (sample_matrix [sample_row 2 255, sample_row 0 51]) = 3"
    by (simp add: num_classes_def sample_matrix_def sample_row_props)
  have nv: "num_classes (sample_matrix [sample_row 1 0]) = 2"
    by (simp add: num_classes_def sample_matrix_def sample_row_props)
  show ?thesis
    using load_data_arrays [OF env_sample_loadmat sample_datasets]
    by (simp only: st sv nt nv)
qed

theorem load_data_pairing_witness:
  "\<exists>s_train s_valid.
     mset s_train = mset [sample_row 2 255, sample_row 0 51] \<and> mset s_valid = mset [sample_row 1 0]
     \<and> load_data env_sample
       = Inr ((map row_image s_train, map (row_label 3) s_train),
              (map row_image s_valid, map (row_label 2) s_valid))"
proof -
  have nt: "num_classes (sample_matrix [sample_row 2 255, sample_row 0 51]) = 3"
    by (simp add: num_classes_def sample_matrix_def sample_row_props)
  have nv: "num_classes (sample_matrix [sample_row 1 0]) = 2"
    by (simp add: num_classes_def sample_matrix_def sample_row_props)
  have r: "rows (sample_matrix rs) = rs" for rs
    by (simp add: sample_matrix_def)
  show ?thesis
    using load_data_pairing [OF env_sample_loadmat sample_datasets]
    by (simp only: nt nv r)
qed

subsection \<open>Runs of the training script\<close>








































subsection \<open>Refusal\<close>







subsection \<open>Exceptions and the acknowledgement\<close>





subsection \<open>Where the output goes\<close>




end
